theory Spec2Isabelle
  imports Main
begin

section \<open>Exceptions and text helpers\<close>

text \<open>
  The Python exceptions that the modelled functions can raise. A function that may raise
  returns \<open>exn + 'a\<close>, with \<open>Inl\<close> for the exception.
\<close>

datatype exn =
    TimeoutExpired
  | AttributeError
  | UnboundLocalError
  | AssertionError
  | FileNotFoundError
  | NotADirectoryError
  | EOFError
  | KeyError

text \<open>\<open>s.startswith(p)\<close>.\<close>

definition startswith :: "string \<Rightarrow> string \<Rightarrow> bool" where
  "startswith s p = (take (length p) s = p)"

text \<open>\<open>p in s\<close> for strings: \<open>p\<close> occurs in \<open>s\<close> as a contiguous substring.\<close>

fun str_in :: "string \<Rightarrow> string \<Rightarrow> bool" where
  "str_in p [] = (p = [])"
| "str_in p (c # cs) = (startswith (c # cs) p \<or> str_in p cs)"

text \<open>\<open>s.split('\n')\<close>: one more piece than there are newlines, never an empty list.\<close>

fun split_nl :: "string \<Rightarrow> string list" where
  "split_nl [] = [[]]"
| "split_nl (c # cs) =
     (if c = CHR 0x0A then [] # split_nl cs
      else (case split_nl cs of [] \<Rightarrow> [[c]] | l # ls \<Rightarrow> (c # l) # ls))"

definition is_lower_az :: "char \<Rightarrow> bool" where
  "is_lower_az c = (97 \<le> (of_char c :: nat) \<and> (of_char c :: nat) \<le> 122)"

definition is_digit :: "char \<Rightarrow> bool" where
  "is_digit c = (48 \<le> (of_char c :: nat) \<and> (of_char c :: nat) \<le> 57)"

section \<open>Partition table parser\<close>

text \<open>
  \<^verbatim>\<open>
  def is_ntfs_partition(fdisk_line: str):
      if 'NTFS' in fdisk_line: return True
      if 'Microsoft basic data' in fdisk_line: return True
      return False
  \<close>
\<close>

definition is_ntfs_partition :: "string \<Rightarrow> bool" where
  "is_ntfs_partition fdisk_line =
     (if str_in ''NTFS'' fdisk_line then True
      else if str_in ''Microsoft basic data'' fdisk_line then True
      else False)"

text \<open>
  \<open>re.match('(/dev/sd[a-z][0-9]).*', x)\<close>: the match is anchored at the start of the
  line, so it succeeds exactly when the line begins with \<open>/dev/sd\<close>, one lower-case
  ASCII letter and one ASCII digit; group 1 is then these nine characters. The result is
  \<open>None\<close> when there is no match, as Python's \<open>re.match\<close> returns \<open>None\<close>.
\<close>

definition partition_re :: "string \<Rightarrow> string option" where
  "partition_re x =
     (if startswith x ''/dev/sd'' \<and> 9 \<le> length x \<and> is_lower_az (x ! 7) \<and> is_digit (x ! 8)
      then Some (take 9 x) else None)"

text \<open>
  \<open>map(lambda x: re.match(...).group(1), ntfs_parts)\<close>, forced by the enclosing
  \<open>tuple\<close>: \<open>.group\<close> on \<open>None\<close> raises AttributeError at the first line that does
  not match, and that ends the whole call.
\<close>

fun ntfs_paths_of :: "string list \<Rightarrow> exn + string list" where
  "ntfs_paths_of [] = Inr []"
| "ntfs_paths_of (x # xs) =
     (case partition_re x of
        None \<Rightarrow> Inl AttributeError
      | Some p \<Rightarrow> (case ntfs_paths_of xs of Inl e \<Rightarrow> Inl e | Inr ps \<Rightarrow> Inr (p # ps)))"

text \<open>
  What \<open>subprocess.run([fdisk, '-l', disk], capture_output=True, timeout=10)\<close> gives:
  the tool did not finish within the ten seconds, or it finished and printed a text
  (its decoded standard output).
\<close>

datatype tool_reply = TimedOut | Completed string

text \<open>
  \<^verbatim>\<open>
  def get_ntfs_partitions(disk: Path) -> list:
      p = subprocess.run(['/usr/bin/fdisk', '-l', disk.__str__()], capture_output=True, timeout=10)
      output = p.stdout.decode()
      output = output.split('\n')
      partitions = tuple(filter(lambda x:x.startswith(disk.__str__()), output))
      ntfs_parts = tuple(filter(lambda x:is_ntfs_partition(x), partitions))
      ntfs_paths = map(lambda x:re.match('(/dev/sd[a-z][0-9]).*', x).group(1), ntfs_parts)
      ntfs_paths = tuple(map(lambda x:Path(x), ntfs_paths))
      ntfs_paths = tuple(ntfs_paths)
      return ntfs_paths if len(ntfs_paths) > 0 else ()
  \<close>
  The three \<open>log.debug\<close> calls only format their arguments and are left out.
\<close>

definition get_ntfs_partitions :: "string \<Rightarrow> tool_reply \<Rightarrow> exn + string list" where
  "get_ntfs_partitions disk reply =
     (case reply of
        TimedOut \<Rightarrow> Inl TimeoutExpired
      | Completed stdout \<Rightarrow>
          (let output = split_nl stdout;
               partitions = filter (\<lambda>x. startswith x disk) output;
               ntfs_parts = filter (\<lambda>x. is_ntfs_partition x) partitions
           in case ntfs_paths_of ntfs_parts of
                Inl e \<Rightarrow> Inl e
              | Inr ntfs_paths \<Rightarrow> Inr (if length ntfs_paths > 0 then ntfs_paths else [])))"

text \<open>
  The spec's words for the lines the parser keeps: the lines prefixed by the device path
  that contain an NTFS-or-basic-data marker, in input order.
\<close>

definition spec_kept_lines :: "string \<Rightarrow> string list \<Rightarrow> string list" where
  "spec_kept_lines disk ls =
     filter (\<lambda>x. startswith x disk \<and> (str_in ''NTFS'' x \<or> str_in ''Microsoft basic data'' x)) ls"

text \<open>
  The spec's words for the partition that a row of the listing names: the first field of
  the row, up to the first blank or tab.
\<close>

definition spec_first_field :: "string \<Rightarrow> string" where
  "spec_first_field x = takeWhile (\<lambda>c. c \<noteq> CHR '' '' \<and> c \<noteq> CHR 0x09) x"

text \<open>
  A row whose first field is the path of a partition with a one-digit number: \<open>/dev/sd\<close>,
  a lower-case letter and one digit.
\<close>

definition spec_partition_row :: "string \<Rightarrow> bool" where
  "spec_partition_row x =
     (let f = spec_first_field x
      in length f = 9 \<and> take 7 f = ''/dev/sd'' \<and> is_lower_az (f ! 7) \<and> is_digit (f ! 8))"

section \<open>File system inventory scanner\<close>

text \<open>
  A directory entry as \<open>pathlib\<close> sees it. The flag says whether the entry itself is a
  symbolic link; the constructor says what \<open>stat\<close> finds behind it:
  \<^item> \<open>File\<close>: a regular file (\<open>is_file()\<close> is true, also through a link);
  \<^item> \<open>Dir\<close>: a directory with its entries in \<open>iterdir()\<close> order (\<open>is_dir()\<close> is true,
    also through a link, where the entries are those of the link's target);
  \<^item> \<open>Special\<close>: a device, socket or pipe (it exists, but is neither file nor directory);
  \<^item> \<open>Dangling\<close>: a symbolic link whose target is missing (\<open>exists()\<close> is false).
\<close>

datatype node =
    File string bool
  | Dir string bool "node list"
  | Special string bool
  | Dangling string

fun entry_name :: "node \<Rightarrow> string" where
  "entry_name (File n s) = n"
| "entry_name (Dir n s ch) = n"
| "entry_name (Special n s) = n"
| "entry_name (Dangling n) = n"

fun exists_node :: "node \<Rightarrow> bool" where
  "exists_node (Dangling n) = False"
| "exists_node e = True"

text \<open>A path is the list of its components (\<open>Path.parts\<close>); \<open>p / n\<close> appends one.\<close>

type_synonym path = "string list"

text \<open>
  \<^verbatim>\<open>
  def list_files(start_path: Path, max_depth=5) -> list:
      files = []
      if max_depth < 0: return ()
      for path in start_path.iterdir():
          if path.is_file(): files.append(path)
          elif path.is_dir() and not path.is_symlink():
              files.extend(list_files(path, max_depth=max_depth-1))
      return files
  \<close>
  \<open>list_files\<close> takes the entries of \<open>start_path\<close> beside the path; \<open>walk\<close> is the
  \<open>for\<close> loop over them.
\<close>

fun list_files :: "path \<Rightarrow> node list \<Rightarrow> int \<Rightarrow> path list"
  and walk :: "path \<Rightarrow> node list \<Rightarrow> int \<Rightarrow> path list" where
  "list_files start_path entries max_depth =
     (if max_depth < 0 then [] else walk start_path entries max_depth)"
| "walk start_path [] max_depth = []"
| "walk start_path (File n s # es) max_depth =
     (start_path @ [n]) # walk start_path es max_depth"
| "walk start_path (Dir n s ch # es) max_depth =
     (if \<not> s then list_files (start_path @ [n]) ch (max_depth - 1) else [])
       @ walk start_path es max_depth"
| "walk start_path (Special n s # es) max_depth = walk start_path es max_depth"
| "walk start_path (Dangling n # es) max_depth = walk start_path es max_depth"

text \<open>
  The number of activations of \<open>list_files\<close> that are on the call stack at the deepest
  point of a call: one for the call itself, and below it the deepest recursive call that
  its loop makes. Python raises RecursionError when this exceeds the interpreter's limit.
\<close>

fun list_files_frames :: "node list \<Rightarrow> int \<Rightarrow> nat"
  and walk_frames :: "node list \<Rightarrow> int \<Rightarrow> nat" where
  "list_files_frames entries max_depth =
     (if max_depth < 0 then 1 else 1 + walk_frames entries max_depth)"
| "walk_frames [] max_depth = 0"
| "walk_frames (File n s # es) max_depth = walk_frames es max_depth"
| "walk_frames (Dir n s ch # es) max_depth =
     max (if \<not> s then list_files_frames ch (max_depth - 1) else 0) (walk_frames es max_depth)"
| "walk_frames (Special n s # es) max_depth = walk_frames es max_depth"
| "walk_frames (Dangling n # es) max_depth = walk_frames es max_depth"

text \<open>\<open>s.rfind(c)\<close>: the index of the last occurrence, \<open>None\<close> for Python's \<open>-1\<close>.\<close>

fun rfind :: "char \<Rightarrow> string \<Rightarrow> nat option" where
  "rfind c [] = None"
| "rfind c (x # xs) =
     (case rfind c xs of
        Some i \<Rightarrow> Some (Suc i)
      | None \<Rightarrow> if x = c then Some 0 else None)"

text \<open>
  \<open>Path.suffix\<close> of a path whose last component is \<open>name\<close> (pathlib up to Python 3.13):
  \<^verbatim>\<open>
  i = name.rfind('.')
  if 0 < i < len(name) - 1: return name[i:]
  else: return ''
  \<close>
\<close>

definition suffix_of :: "string \<Rightarrow> string" where
  "suffix_of name =
     (case rfind (CHR ''.'') name of
        None \<Rightarrow> []
      | Some i \<Rightarrow> if 0 < i \<and> i + 1 < length name then drop i name else [])"

definition path_suffix :: "path \<Rightarrow> string" where
  "path_suffix p = (if p = [] then [] else suffix_of (last p))"

text \<open>
  \<open>str.lower()\<close> on the letters A to Z. Other characters are left as they are: the
  result is only compared with the ASCII strings of \<open>IMAGE_EXTENSIONS\<close>.
\<close>

definition lower_char :: "char \<Rightarrow> char" where
  "lower_char c =
     (if 65 \<le> (of_char c :: nat) \<and> (of_char c :: nat) \<le> 90
      then char_of ((of_char c :: nat) + 32) else c)"

definition lower :: "string \<Rightarrow> string" where
  "lower s = map lower_char s"

definition IMAGE_EXTENSIONS :: "string list" where
  "IMAGE_EXTENSIONS = [''.png'', ''.jpg'', ''.jpeg'', ''.cr2'']"

text \<open>
  \<^verbatim>\<open>
  def count_images(user_dir: Path) -> int:
      files = list_files(user_dir)
      images = 0
      for f in files:
          if f.suffix.lower() in IMAGE_EXTENSIONS:
              #if f.stat().st_size > MIN_IMAGE_SIZE:
                  #images += 1
              images += 1
      return images
  \<close>
\<close>

definition count_images :: "path \<Rightarrow> node list \<Rightarrow> nat" where
  "count_images user_dir entries =
     (let files = list_files user_dir entries 5
      in fold (\<lambda>f images.
                 if lower (path_suffix f) \<in> set IMAGE_EXTENSIONS then images + 1 else images)
              files 0)"

text \<open>
  The spec's words for matching an extension case-insensitively: the text agrees with a
  lower-case pattern when each of its characters is the character of the pattern or the
  upper-case letter of it.
\<close>

fun spec_matches_nocase :: "string \<Rightarrow> string \<Rightarrow> bool" where
  "spec_matches_nocase [] [] = True"
| "spec_matches_nocase (x # xs) (y # ys) =
     ((x = y \<or> (is_lower_az y \<and> (of_char x :: nat) + 32 = of_char y))
      \<and> spec_matches_nocase xs ys)"
| "spec_matches_nocase xs ys = False"

text \<open>\<open>Path(dir, name).exists()\<close>, given the entries of \<open>dir\<close>.\<close>

definition path_exists :: "node list \<Rightarrow> string \<Rightarrow> bool" where
  "path_exists entries n = list_ex (\<lambda>e. entry_name e = n \<and> exists_node e) entries"

text \<open>The entry called \<open>n\<close> among the entries of a directory.\<close>

definition lookup_entry :: "node list \<Rightarrow> string \<Rightarrow> node option" where
  "lookup_entry entries n = find (\<lambda>e. entry_name e = n) entries"

definition MOUNT_POINT :: string where
  "MOUNT_POINT = ''/mnt/4''"

text \<open>\<open>Path(MOUNT_POINT).parts\<close>.\<close>

definition MOUNT_POINT_parts :: path where
  "MOUNT_POINT_parts = [''/'', ''mnt'', ''4'']"

text \<open>
  The loop of \<open>get_users\<close> over the entries of the users directory: only a \<open>Dir\<close> entry
  passes \<open>is_dir()\<close>. A profile is kept with its path and its entries.
\<close>

fun users_loop :: "path \<Rightarrow> node list \<Rightarrow> (path \<times> node list) list" where
  "users_loop users_path [] = []"
| "users_loop users_path (Dir n s ch # es) =
     (if path_exists ch ''ntuser.dat'' then [(users_path @ [n], ch)]
      else if path_exists ch ''NTUSER.DAT'' then [(users_path @ [n], ch)]
      else []) @ users_loop users_path es"
| "users_loop users_path (e # es) = users_loop users_path es"

text \<open>
  \<^verbatim>\<open>
  def get_users() -> list:
      users_path = Path(MOUNT_POINT, "Users")
      users = []
      for dir in users_path.iterdir():
          if not dir.is_dir(): continue
          if Path(dir, "ntuser.dat").exists():
              users.append(dir)
          elif Path(dir, "NTUSER.DAT").exists():
              users.append(dir)
      return users
  \<close>
  The argument is what is visible in the directory \<open>MOUNT_POINT\<close>. \<open>iterdir\<close> raises
  FileNotFoundError when \<open>Users\<close> is missing and NotADirectoryError when it is not a
  directory.
\<close>

definition get_users :: "node list \<Rightarrow> exn + (path \<times> node list) list" where
  "get_users root =
     (let users_path = MOUNT_POINT_parts @ [''Users'']
      in case lookup_entry root ''Users'' of
           None \<Rightarrow> Inl FileNotFoundError
         | Some (Dangling n) \<Rightarrow> Inl FileNotFoundError
         | Some (File n s) \<Rightarrow> Inl NotADirectoryError
         | Some (Special n s) \<Rightarrow> Inl NotADirectoryError
         | Some (Dir n s ch) \<Rightarrow> Inr (users_loop users_path ch))"

section \<open>Disk set monitor\<close>

text \<open>
  \<open>re.match("^sd[a-z]$", name)\<close>: the name is \<open>sd\<close> and one lower-case ASCII letter;
  \<open>$\<close> also matches before one trailing newline.
\<close>

definition disk_name_re :: "string \<Rightarrow> bool" where
  "disk_name_re n =
     (startswith n ''sd'' \<and> (length n = 3 \<or> (length n = 4 \<and> n ! 3 = CHR 0x0A))
      \<and> is_lower_az (n ! 2))"

text \<open>
  \<^verbatim>\<open>
  def get_disks() -> set:
      devs = set()
      for path in Path("/dev").iterdir():
          if path.is_block_device():
              if re.match("^sd[a-z]$", path.name):
                  devs.add(path)
      return devs
  \<close>
  The argument is the raw enumeration of \<open>/dev\<close> at the time of the call: the name of each
  entry and whether it is a block device.
\<close>

definition get_disks :: "(string \<times> bool) list \<Rightarrow> string set" where
  "get_disks dev =
     set (map (\<lambda>(n, blk). ''/dev/'' @ n) (filter (\<lambda>(n, blk). blk \<and> disk_name_re n) dev))"

section \<open>Mount controller\<close>

text \<open>
  \<open>re.match(regex, line)\<close> for the patterns that \<open>is_mounted\<close> builds: ordinary characters
  stand for themselves, \<open>.\<close> is any character but a newline, and \<open>*\<close> after a character
  or \<open>.\<close> repeats it zero or more times. The match is anchored at the start of the line
  only. The paths that the program passes (\<open>MOUNT_POINT\<close> and the partition paths that
  \<open>get_ntfs_partitions\<close> extracts) contain no other regular-expression operator.
\<close>

definition char_matches :: "char \<Rightarrow> char \<Rightarrow> bool" where
  "char_matches c x = (if c = CHR ''.'' then x \<noteq> CHR 0x0A else c = x)"

fun re_match :: "string \<Rightarrow> string \<Rightarrow> bool" where
  "re_match [] s = True"
| "re_match [c] s = (case s of [] \<Rightarrow> False | x # xs \<Rightarrow> char_matches c x)"
| "re_match (c # k # r) s =
     (if k = CHR ''*''
      then (re_match r s \<or>
            (case s of [] \<Rightarrow> False | x # xs \<Rightarrow> char_matches c x \<and> re_match (c # k # r) xs))
      else (case s of [] \<Rightarrow> False | x # xs \<Rightarrow> char_matches c x \<and> re_match (k # r) xs))"

text \<open>\<open>"{}".format(x)\<close> for an optional string: \<open>None\<close> is printed as \<open>None\<close>.\<close>

fun fmt :: "string option \<Rightarrow> string" where
  "fmt None = ''None''"
| "fmt (Some s) = s"

text \<open>
  The regular expression that the body of the loop of \<open>is_mounted\<close> assigns. When no
  branch of the chain is taken the variable \<open>regex\<close> stays unbound (\<open>None\<close> here).
  \<^verbatim>\<open>
  if dest is not None and part is not None:
      regex = "{} on {} .*".format(part, dest)
  elif part is None:
      regex = ".* on {} .*".format(dest)
  elif dest is not None:
      regex = "{} on .*".format(part)
  \<close>
\<close>

definition regex_for :: "string option \<Rightarrow> string option \<Rightarrow> string option" where
  "regex_for part dest =
     (if dest \<noteq> None \<and> part \<noteq> None then Some (fmt part @ '' on '' @ fmt dest @ '' .*'')
      else if part = None then Some (''.* on '' @ fmt dest @ '' .*'')
      else if dest \<noteq> None then Some (fmt part @ '' on .*'')
      else None)"

text \<open>
  The loop of \<open>is_mounted\<close> over the lines of the mount list. Reading the unbound
  \<open>regex\<close> in \<open>re.match(regex, line)\<close> raises UnboundLocalError.
\<close>

fun is_mounted_loop :: "string option \<Rightarrow> string option \<Rightarrow> string list \<Rightarrow> exn + bool" where
  "is_mounted_loop part dest [] = Inr False"
| "is_mounted_loop part dest (line # out) =
     (case regex_for part dest of
        None \<Rightarrow> Inl UnboundLocalError
      | Some regex \<Rightarrow>
          if re_match regex line then Inr True else is_mounted_loop part dest out)"

text \<open>
  \<^verbatim>\<open>
  def is_mounted(part: str=None, dest: str=None):
      assert part is not None or dest is not None
      p = subprocess.run(['/usr/bin/mount'], capture_output=True)
      out = p.stdout.decode()
      out = out.split('\n')
      for line in out:
          ...
          if re.match(regex, line):
              return True
      return False
  \<close>
  The third argument is the decoded standard output of \<open>/usr/bin/mount\<close>.
\<close>

definition is_mounted :: "string option \<Rightarrow> string option \<Rightarrow> string \<Rightarrow> exn + bool" where
  "is_mounted part dest stdout =
     (if \<not> (part \<noteq> None \<or> dest \<noteq> None) then Inl AssertionError
      else is_mounted_loop part dest (split_nl stdout))"

section \<open>The environment: external tools, operator and log\<close>

text \<open>
  What the program does to the outside, in the order in which it does it: the external
  tools it runs, the lines it reads from the operator, what it prints and what it hands
  to the logger (level, message template and arguments).
\<close>

datatype level = INFO | WARNING | ERROR

datatype arg = S string | N nat | L "string list"

datatype event =
    RunUdevadm string
  | RunFdisk string
  | RunMountList
  | RunMount string string
  | RunUmount string
  | Input string
  | Print string "arg list"
  | Log level string "arg list"

text \<open>
  The state of the outside world:
  \<^item> \<open>fdisk\<close>: what \<open>fdisk -l\<close> does for a disk;
  \<^item> \<open>udevadm\<close>: the text that \<open>udevadm info\<close> prints for a disk;
  \<^item> \<open>volumes\<close>: the root directory of the file system on a partition, \<open>None\<close> when the
    mount utility cannot mount the partition (it then exits with a non-zero status);
  \<^item> \<open>mounted\<close>: the file systems mounted now, oldest first, each with its device, its
    mount point and its root directory;
  \<^item> \<open>stdin\<close>: the lines the operator will type, and then end of input;
  \<^item> \<open>trace\<close>: the events so far.
  The operator only types answers; nothing but the program's own calls changes the mounts.
\<close>

record world =
  fdisk :: "string \<Rightarrow> tool_reply"
  udevadm :: "string \<Rightarrow> string"
  volumes :: "string \<Rightarrow> node list option"
  mounted :: "(string \<times> string \<times> node list) list"
  stdin :: "string list"
  trace :: "event list"

text \<open>A computation that may raise and that changes the world.\<close>

type_synonym 'a io = "world \<Rightarrow> (exn + 'a) \<times> world"

definition ret :: "'a \<Rightarrow> 'a io" where
  "ret x w = (Inr x, w)"

definition then_do :: "'a io \<Rightarrow> ('a \<Rightarrow> 'b io) \<Rightarrow> 'b io" where
  "then_do m f w = (case m w of (Inl e, w') \<Rightarrow> (Inl e, w') | (Inr x, w') \<Rightarrow> f x w')"

definition emit :: "event list \<Rightarrow> unit io" where
  "emit evs w = (Inr (), w\<lparr>trace := trace w @ evs\<rparr>)"

text \<open>The text that \<open>/usr/bin/mount\<close> prints: one line for each mounted file system.\<close>

definition mount_stdout :: "world \<Rightarrow> string" where
  "mount_stdout w =
     concat (map (\<lambda>(dev, mp, root). dev @ '' on '' @ mp @ '' type fuseblk (rw)'' @ [CHR 0x0A])
                 (mounted w))"

text \<open>
  The entries visible in the directory \<open>mp\<close>: the root of the file system mounted there
  last, or those of the empty directory underneath.
\<close>

definition root_at :: "world \<Rightarrow> string \<Rightarrow> node list" where
  "root_at w mp =
     (case filter (\<lambda>(dev, m, root). m = mp) (mounted w) of
        [] \<Rightarrow> []
      | e # es \<Rightarrow> snd (snd (last (e # es))))"

text \<open>
  \<open>subprocess.run(['/usr/bin/mount', part, dest], check=True)\<close>: the result is whether the
  exit status was zero (otherwise \<open>check=True\<close> raises CalledProcessError, which the caller
  catches).
\<close>

definition run_mount :: "string \<Rightarrow> string \<Rightarrow> bool io" where
  "run_mount part dest w =
     (case volumes w part of
        None \<Rightarrow> (Inr False, w\<lparr>trace := trace w @ [RunMount part dest]\<rparr>)
      | Some root \<Rightarrow>
          (Inr True, w\<lparr>mounted := mounted w @ [(part, dest, root)],
                       trace := trace w @ [RunMount part dest]\<rparr>))"

text \<open>The mounts after \<open>umount x\<close>: the last mount of the device or mount point \<open>x\<close> goes.\<close>

fun drop_last_mount :: "string \<Rightarrow> (string \<times> string \<times> node list) list
    \<Rightarrow> (string \<times> string \<times> node list) list" where
  "drop_last_mount x [] = []"
| "drop_last_mount x (m # ms) =
     (if list_ex (\<lambda>(dev, mp, root). dev = x \<or> mp = x) ms then m # drop_last_mount x ms
      else if fst m = x \<or> fst (snd m) = x then ms
      else m # ms)"

text \<open>
  \<^verbatim>\<open>
  def unmount(dest: str):
      os.system("umount {}".format(dest))
  \<close>
  The exit status is not looked at.
\<close>

definition unmount :: "string \<Rightarrow> unit io" where
  "unmount dest w =
     (Inr (), w\<lparr>mounted := drop_last_mount dest (mounted w),
                 trace := trace w @ [RunUmount dest]\<rparr>)"

text \<open>\<open>is_mounted\<close> run against the world: the assertion comes before the tool is run.\<close>

definition run_is_mounted :: "string option \<Rightarrow> string option \<Rightarrow> bool io" where
  "run_is_mounted part dest w =
     (if \<not> (part \<noteq> None \<or> dest \<noteq> None) then (Inl AssertionError, w)
      else (is_mounted part dest (mount_stdout w), w\<lparr>trace := trace w @ [RunMountList]\<rparr>))"

text \<open>\<open>str.upper()\<close> on the letters a to z; the answers of the program are ASCII.\<close>

definition upper_char :: "char \<Rightarrow> char" where
  "upper_char c =
     (if 97 \<le> (of_char c :: nat) \<and> (of_char c :: nat) \<le> 122
      then char_of ((of_char c :: nat) - 32) else c)"

definition upper :: "string \<Rightarrow> string" where
  "upper s = map upper_char s"

text \<open>
  The \<open>while True\<close> loop of \<open>ask_question\<close> over the lines the operator types. \<open>input\<close>
  raises EOFError at the end of the input. The result comes with the lines left and the
  events of the loop.
\<close>

fun ask_loop :: "string \<Rightarrow> string list \<Rightarrow> string \<Rightarrow> string list
    \<Rightarrow> (exn + string) \<times> string list \<times> event list" where
  "ask_loop question answers dflt [] = (Inl EOFError, [], [Input question])"
| "ask_loop question answers dflt (l # rest) =
     (let i = (if l = [] then dflt else l)
      in if i \<in> set answers then (Inr (lower i), rest, [Input question])
         else (case ask_loop question answers dflt rest of
                 (r, rest', evs) \<Rightarrow>
                   (r, rest', Input question # Print ''Invalid answer {}'' [S i] # evs)))"

text \<open>
  \<^verbatim>\<open>
  def ask_question(question: str, answers: list):
      default = ""
      for a in answers:
          if a.upper() == a:
              default = a
      while True:
          i = input("{} {}: ".format(question, answers.__str__().replace("'", "")))
          if i == "": i = default
          if i in answers:
              return i.lower()
          else:
              print("Invalid answer '{}'".format(i))
  \<close>
\<close>

definition ask_question :: "string \<Rightarrow> string list \<Rightarrow> string io" where
  "ask_question question answers w =
     (let dflt = fold (\<lambda>a d. if upper a = a then a else d) answers [] in
      case ask_loop question answers dflt (stdin w) of
        (r, rest, evs) \<Rightarrow> (r, w\<lparr>stdin := rest, trace := trace w @ evs\<rparr>))"

text \<open>
  \<^verbatim>\<open>
  def mount(part: str, dest: str) -> bool:
      """Mounts a partition at the dest folder. Returns true if it didn't mount correctly."""
      if is_mounted(dest=dest):
          answer = ask_question("{} is already mounted on {}, continue?".format(part, dest), ("Y", "n"))
          if answer != "y": return
      else:
          try:
              p = subprocess.run(['/usr/bin/mount', part, dest], check=True)
          except subprocess.CalledProcessError:
              log.warning("Mount failed")
              if not is_mounted(part, dest):
                  log.error("Failed to mount {} at {}".format(part, dest))
                  answer = ask_question("Failed to mount {} at {}, do it manually?".format(part, dest), ("Y", "n"))
                  if answer != "y":
                      return True
                  if not is_mounted(part, dest):
                      log.error("Failed to mount {} at {}".format(part, dest))
      log.info("Successfully mounted {} at {}".format(part, dest))
  \<close>
  The result is \<open>None\<close> for Python's \<open>None\<close> (a bare \<open>return\<close>, or the end of the body)
  and \<open>Some True\<close> for \<open>True\<close>.
\<close>

definition mounted_ok :: "string \<Rightarrow> string \<Rightarrow> bool option io" where
  "mounted_ok part dest =
     then_do (emit [Log INFO ''Successfully mounted {} at {}'' [S part, S dest]])
       (\<lambda>_. ret None)"

definition mount :: "string \<Rightarrow> string \<Rightarrow> bool option io" where
  "mount part dest =
     then_do (run_is_mounted None (Some dest)) (\<lambda>m.
       if m then
         then_do (ask_question (part @ '' is already mounted on '' @ dest @ '', continue?'')
                    [''Y'', ''n'']) (\<lambda>answer.
           if answer \<noteq> ''y'' then ret None
           else mounted_ok part dest)
       else
         then_do (run_mount part dest) (\<lambda>ok.
           if ok then mounted_ok part dest
           else
             then_do (emit [Log WARNING ''Mount failed'' []]) (\<lambda>_.
             then_do (run_is_mounted (Some part) (Some dest)) (\<lambda>m1.
               if \<not> m1 then
                 then_do (emit [Log ERROR ''Failed to mount {} at {}'' [S part, S dest]]) (\<lambda>_.
                 then_do (ask_question (''Failed to mount '' @ part @ '' at '' @ dest
                            @ '', do it manually?'') [''Y'', ''n'']) (\<lambda>answer.
                   if answer \<noteq> ''y'' then ret (Some True)
                   else
                     then_do (run_is_mounted (Some part) (Some dest)) (\<lambda>m2.
                       if \<not> m2 then
                         then_do (emit [Log ERROR ''Failed to mount {} at {}'' [S part, S dest]])
                           (\<lambda>_. mounted_ok part dest)
                       else mounted_ok part dest)))
               else mounted_ok part dest))))"

text \<open>Python's truth value of what \<open>mount\<close> returns.\<close>

fun truthy :: "bool option \<Rightarrow> bool" where
  "truthy None = False"
| "truthy (Some b) = b"

section \<open>Device pipeline orchestrator\<close>

text \<open>\<open>Path.name\<close> of a path given by its components.\<close>

definition path_name :: "path \<Rightarrow> string" where
  "path_name p = (if p = [] then [] else last p)"

text \<open>\<open>Path(s).name\<close> of a device path given as text: what follows the last slash.\<close>

definition str_name :: "string \<Rightarrow> string" where
  "str_name s = rev (takeWhile (\<lambda>c. c \<noteq> CHR ''/'') (rev s))"

text \<open>The body of the loop over the users in \<open>process_ntfs_partition\<close>.\<close>

fun user_events :: "(path \<times> node list) list \<Rightarrow> event list" where
  "user_events [] = []"
| "user_events ((user, entries) # users) =
     (let images = count_images user entries
      in [Print ''Found user {:<16} with {:<6} images'' [S (path_name user), N images],
          Log INFO ''User {} has {} images'' [S (path_name user), N images]])
     @ user_events users"

text \<open>
  \<^verbatim>\<open>
  def process_ntfs_partition(part: Path):
      """Does everything needed when a new NTFS partition is found. Returns True if partition failed to process."""
      start = time()
      if mount(part, MOUNT_POINT): return True
      users = get_users()
      log.info("Found users {}".format(list(map(lambda x:x.name, users))))
      for user in users:
          images = count_images(user)
          print("Found user {:<16} with {:<6} images".format(user.name, images))
          log.info("User {} has {} images".format(user.name, images))
      log.info("Took {}s to scan partition".format(round(time() - start, 4)))
      return False
  \<close>
  The elapsed time is not modelled.
\<close>

definition process_ntfs_partition :: "string \<Rightarrow> bool io" where
  "process_ntfs_partition part =
     then_do (mount part MOUNT_POINT) (\<lambda>m.
       if truthy m then ret True
       else
         then_do (\<lambda>w. (get_users (root_at w MOUNT_POINT), w)) (\<lambda>users.
         then_do (emit [Log INFO ''Found users {}'' [L (map (\<lambda>x. path_name (fst x)) users)]]) (\<lambda>_.
         then_do (emit (user_events users)) (\<lambda>_.
         then_do (emit [Log INFO ''Took {}s to scan partition'' []]) (\<lambda>_.
         ret False)))))"

text \<open>
  \<open>re.match(".*ID_SERIAL_SHORT=(.*)", line)\<close>: group 1 is what follows the last
  occurrence of the key in the line (the first \<open>.*\<close> is greedy), \<open>None\<close> when the key does
  not occur.
\<close>

fun serial_re :: "string \<Rightarrow> string option" where
  "serial_re [] = None"
| "serial_re (c # cs) =
     (case serial_re cs of
        Some s \<Rightarrow> Some s
      | None \<Rightarrow>
          if startswith (c # cs) ''ID_SERIAL_SHORT='' then Some (drop 16 (c # cs)) else None)"

text \<open>The loop of \<open>get_disk_serial\<close>: the serial of the first line that has one.\<close>

fun first_serial :: "string list \<Rightarrow> string option" where
  "first_serial [] = None"
| "first_serial (line # out) =
     (case serial_re line of Some s \<Rightarrow> Some s | None \<Rightarrow> first_serial out)"

text \<open>
  \<^verbatim>\<open>
  def get_disk_serial(disk: str):
      p = subprocess.run(['/usr/bin/udevadm', 'info', '--query=all', '--name={}'.format(disk)], capture_output=True)
      out = p.stdout.decode().split('\n')
      serial = ""
      for line in out:
          serial = re.match(".*ID_SERIAL_SHORT=(.*)", line)
          if not serial: continue
          serial = serial.group(1)
          return serial
      log.warning("Failed to get serial number for {}. Using {}".format(disk, serial))
      return ""
  \<close>
\<close>

definition get_disk_serial :: "string \<Rightarrow> string io" where
  "get_disk_serial disk =
     then_do (emit [RunUdevadm disk]) (\<lambda>_. \<lambda>w.
       (case first_serial (split_nl (udevadm w disk)) of
          Some serial \<Rightarrow> ret serial w
        | None \<Rightarrow>
            then_do (emit [Log WARNING ''Failed to get serial number for {}. Using {}''
                             [S disk, S ''None'']])
              (\<lambda>_. ret []) w))"

text \<open>\<open>get_ntfs_partitions\<close> run against the world.\<close>

definition run_get_ntfs_partitions :: "string \<Rightarrow> string list io" where
  "run_get_ntfs_partitions disk w =
     (get_ntfs_partitions disk (fdisk w disk), w\<lparr>trace := trace w @ [RunFdisk disk]\<rparr>)"

text \<open>The loop of \<open>process_disk\<close> over the partitions.\<close>

fun partitions_loop :: "string list \<Rightarrow> unit io" where
  "partitions_loop [] = ret ()"
| "partitions_loop (part # parts) =
     then_do (process_ntfs_partition part) (\<lambda>failed.
     then_do (if failed then emit [Log WARNING ''Failed to process partition {}'' [S part]]
              else ret ()) (\<lambda>_.
     then_do (unmount part) (\<lambda>_.
     partitions_loop parts)))"

text \<open>
  \<^verbatim>\<open>
  def process_disk(path: Path):
      """Does everthing needed when a new disk is inserted."""
      serial = get_disk_serial(path)
      log.info("Processing disk {}".format(serial))
      print("Found disk {}".format(serial))
      partitions = get_ntfs_partitions(path)
      if len(partitions) == 0:
          log.info("Found no NTFS partitions")
          print("Found no NTFS partitions")
          return
      log.info("Found NTFS partitions: {}".format(list(map(lambda x:x.name, partitions))))
      for partition in partitions:
          if process_ntfs_partition(partition):
              log.warning("Failed to process partition {}".format(partition))
          unmount(partition)
  \<close>
\<close>

definition process_disk :: "string \<Rightarrow> unit io" where
  "process_disk path =
     then_do (get_disk_serial path) (\<lambda>serial.
     then_do (emit [Log INFO ''Processing disk {}'' [S serial], Print ''Found disk {}'' [S serial]]) (\<lambda>_.
     then_do (run_get_ntfs_partitions path) (\<lambda>partitions.
       if length partitions = 0 then
         emit [Log INFO ''Found no NTFS partitions'' [], Print ''Found no NTFS partitions'' []]
       else
         then_do (emit [Log INFO ''Found NTFS partitions: {}'' [L (map str_name partitions)]]) (\<lambda>_.
         partitions_loop partitions))))"

section \<open>The polling loop\<close>

text \<open>
  The order in which Python iterates over a set is not fixed by the language. The loop
  takes it as a parameter \<open>iter\<close>, which lists the elements of a set.

  The \<open>for\<close> loop over the new disks:
  \<^verbatim>\<open>
  for disk in new_disks:
      process_disk(disk)
      original_disks.add(disk)
  \<close>
  An exception of \<open>process_disk\<close> ends the loop, and with it \<open>main\<close>.
\<close>

fun offer_loop :: "string list \<Rightarrow> string set \<Rightarrow> string set io" where
  "offer_loop [] original_disks = ret original_disks"
| "offer_loop (disk # rest) original_disks =
     then_do (process_disk disk) (\<lambda>_. offer_loop rest (insert disk original_disks))"

text \<open>
  One pass of the \<open>while True\<close> loop of \<open>main\<close>, given the known set and the result of
  \<open>get_disks()\<close> at this tick:
  \<^verbatim>\<open>
  new_disks = current_disks - original_disks
  if len(new_disks) > 0:
      log.info("Found new disks: {}".format(list(map(lambda x:x.name, new_disks))))
      for disk in new_disks:
          process_disk(disk)
          original_disks.add(disk)
      print("Waiting for new disks...")
  removed_disks = original_disks - current_disks
  if len(removed_disks) > 0:
      log.info("Removed disks: {}".format(list(map(lambda x:x.name, removed_disks))))
      original_disks -= removed_disks
  sleep(SLEEP_TIME)
  \<close>
  The result of a pass that is not ended by an exception is the pair of \<open>new_disks\<close> and
  \<open>removed_disks\<close>, with the known set after the pass. The sleep is not modelled.
\<close>

definition monitor_tick :: "(string set \<Rightarrow> string list) \<Rightarrow> string set \<Rightarrow> string set
    \<Rightarrow> ((string set \<times> string set) \<times> string set) io" where
  "monitor_tick iter original_disks current_disks =
     (let new_disks = current_disks - original_disks in
      then_do
        (if new_disks \<noteq> {} then
           then_do (emit [Log INFO ''Found new disks: {}'' [L (map str_name (iter new_disks))]]) (\<lambda>_.
           then_do (offer_loop (iter new_disks) original_disks) (\<lambda>original1.
           then_do (emit [Print ''Waiting for new disks...'' []]) (\<lambda>_.
           ret original1)))
         else ret original_disks) (\<lambda>original1.
      let removed_disks = original1 - current_disks in
      then_do
        (if removed_disks \<noteq> {} then
           then_do (emit [Log INFO ''Removed disks: {}'' [L (map str_name (iter removed_disks))]]) (\<lambda>_.
           ret (original1 - removed_disks))
         else ret original1) (\<lambda>original2.
      ret ((new_disks, removed_disks), original2))))"

text \<open>
  The loop over the successive polls: what each pass reports, as long as no pass is ended
  by an exception.
\<close>

fun monitor :: "(string set \<Rightarrow> string list) \<Rightarrow> string set \<Rightarrow> string set list
    \<Rightarrow> (string set \<times> string set) list io" where
  "monitor iter original_disks [] = ret []"
| "monitor iter original_disks (current_disks # rest) =
     then_do (monitor_tick iter original_disks current_disks) (\<lambda>r.
     then_do (monitor iter (snd r) rest) (\<lambda>rs.
     ret (fst r # rs)))"

text \<open>
  \<^verbatim>\<open>
  def main():
      create_log()
      log.info("Started.")
      original_disks = get_disks()
      original_disks.remove(Path('/dev/sdc'))
      log.info("Starting with disks: {}".format(list(map(lambda x:x.name, original_disks))))
      while True:
          current_disks = get_disks()
          ...
  \<close>
  \<open>set.remove\<close> raises KeyError when the element is not in the set. The arguments are the
  iteration order, the raw enumeration of \<open>/dev\<close> at startup and those at the successive
  polls. The set-up of the log handlers is not modelled.
\<close>

definition main :: "(string set \<Rightarrow> string list) \<Rightarrow> (string \<times> bool) list
    \<Rightarrow> (string \<times> bool) list list \<Rightarrow> (string set \<times> string set) list io" where
  "main iter dev0 polls =
     then_do (emit [Log INFO ''Started.'' []]) (\<lambda>_.
       let original_disks = get_disks dev0 in
       if ''/dev/sdc'' \<in> original_disks then
         then_do (emit [Log INFO ''Starting with disks: {}''
                          [L (map str_name (iter (original_disks - {''/dev/sdc''})))]]) (\<lambda>_.
         monitor iter (original_disks - {''/dev/sdc''}) (map get_disks polls))
       else (\<lambda>w. (Inl KeyError, w)))"

text \<open>
  An iteration order for the examples: the disks of the set in alphabetical order of
  their letter.
\<close>

definition alphabetical :: "string set \<Rightarrow> string list" where
  "alphabetical ds =
     filter (\<lambda>d. d \<in> ds) (map (\<lambda>c. ''/dev/sd'' @ [c]) ''abcdefghijklmnopqrstuvwxyz'')"

section \<open>Example environments\<close>

text \<open>
  Something else is already mounted at the mount point when \<open>/dev/sdb1\<close> is to be
  processed, and the operator answers \<open>n\<close>.
\<close>

definition conflict_world :: world where
  "conflict_world =
     \<lparr> fdisk = (\<lambda>d. Completed ''/dev/sdb1 2048 HPFS/NTFS/exFAT\<newline>''),
       udevadm = (\<lambda>d. ''E: ID_SERIAL_SHORT=WD123\<newline>''),
       volumes = (\<lambda>p. Some [Dir ''Users'' False []]),
       mounted = [(''/dev/sda1'', ''/mnt/4'',
                   [Dir ''Users'' False
                      [Dir ''carol'' False [File ''NTUSER.DAT'' False, File ''x.png'' False]]])],
       stdin = [''n''],
       trace = [] \<rparr>"

text \<open>The partition table tool does not answer within its time limit.\<close>

definition timeout_world :: world where
  "timeout_world =
     \<lparr> fdisk = (\<lambda>d. TimedOut),
       udevadm = (\<lambda>d. ''E: ID_SERIAL_SHORT=WD123\<newline>''),
       volumes = (\<lambda>p. Some [Dir ''Users'' False []]),
       mounted = [],
       stdin = [],
       trace = [] \<rparr>"




text \<open>No disk has a partition table that the tool can print anything about.\<close>

definition blank_world :: world where
  "blank_world =
     \<lparr> fdisk = (\<lambda>d. Completed []),
       udevadm = (\<lambda>d. ''E: ID_SERIAL_SHORT=WD123\<newline>''),
       volumes = (\<lambda>p. None),
       mounted = [],
       stdin = [],
       trace = [] \<rparr>"


section \<open>The partition table parser: proofs\<close>

lemma ntfs_paths_of_Inr:
  "ntfs_paths_of xs = Inr ps \<Longrightarrow> map Some ps = map partition_re xs"
  by (induction xs arbitrary: ps) (auto split: option.splits sum.splits)

lemma ntfs_paths_of_total:
  "\<forall>x \<in> set xs. partition_re x \<noteq> None \<Longrightarrow> \<exists>ps. ntfs_paths_of xs = Inr ps"
  by (induction xs) (auto split: option.splits sum.splits)

lemma ntfs_paths_of_Inl:
  "ntfs_paths_of xs = Inl e \<Longrightarrow> e = AttributeError \<and> (\<exists>x \<in> set xs. partition_re x = None)"
  by (induction xs) (auto split: option.splits sum.splits)

lemma ntfs_paths_of_Inr_all:
  "ntfs_paths_of xs = Inr ps \<Longrightarrow> \<forall>x \<in> set xs. partition_re x \<noteq> None"
  by (induction xs arbitrary: ps) (auto split: option.splits sum.splits)

lemma ntfs_parts_eq:
  "filter (\<lambda>x. is_ntfs_partition x) (filter (\<lambda>x. startswith x disk) ls) = spec_kept_lines disk ls"
  by (induction ls) (auto simp: spec_kept_lines_def is_ntfs_partition_def)

lemma get_ntfs_partitions_Completed:
  "get_ntfs_partitions disk (Completed out) = ntfs_paths_of (spec_kept_lines disk (split_nl out))"
  unfolding get_ntfs_partitions_def Let_def ntfs_parts_eq
  by (cases "ntfs_paths_of (spec_kept_lines disk (split_nl out))") simp_all

lemma spec_partition_row_re:
  assumes "spec_partition_row x" shows "partition_re x = Some (spec_first_field x)"
proof -
  let ?f = "spec_first_field x"
  from assms have l: "length ?f = 9" and t: "take 7 ?f = ''/dev/sd''"
    and a: "is_lower_az (?f ! 7)" and d: "is_digit (?f ! 8)"
    by (simp_all add: spec_partition_row_def Let_def)
  have x: "x = ?f @ dropWhile (\<lambda>c. c \<noteq> CHR '' '' \<and> c \<noteq> CHR 0x09) x"
    by (simp add: spec_first_field_def)
  have t9: "take 9 x = ?f" using l by (subst x) simp
  have n7: "x ! 7 = ?f ! 7" using l by (subst x) (simp add: nth_append)
  have n8: "x ! 8 = ?f ! 8" using l by (subst x) (simp add: nth_append)
  have t7: "take 7 x = ''/dev/sd''" using l t by (subst x) simp
  have len: "9 \<le> length x" using l by (subst x) simp
  have "length ''/dev/sd'' = 7" by simp
  with t7 have sw: "startswith x ''/dev/sd''" unfolding startswith_def by presburger
  show ?thesis using sw len a d n7 n8 t9 by (simp add: partition_re_def)
qed

lemma ntfs_paths_of_rows:
  "list_all spec_partition_row xs \<Longrightarrow> ntfs_paths_of xs = Inr (map spec_first_field xs)"
  by (induction xs) (simp_all add: spec_partition_row_re)

text \<open>
  Claim C7, as stated, fails: here three lines are prefixed by the device path and contain
  a marker, two of them rows of partitions, and no partition is returned. The third line
  does not match the extraction pattern and the call ends with AttributeError.
\<close>

theorem kept_rows_not_returned_counterexample:
  "get_ntfs_partitions ''/dev/sdb''
     (Completed ''/dev/sdb1 2048 HPFS/NTFS/exFAT\<newline>/dev/sdb2 4096 Microsoft basic data\<newline>/dev/sdb: NTFS\<newline>'')
     = Inl AttributeError
   \<and> spec_kept_lines ''/dev/sdb''
       (split_nl ''/dev/sdb1 2048 HPFS/NTFS/exFAT\<newline>/dev/sdb2 4096 Microsoft basic data\<newline>/dev/sdb: NTFS\<newline>'')
     = [''/dev/sdb1 2048 HPFS/NTFS/exFAT'', ''/dev/sdb2 4096 Microsoft basic data'',
        ''/dev/sdb: NTFS'']"
  by code_simp

text \<open>
  Claim C7, amended. When every line that is prefixed by the device path and contains
  \<open>NTFS\<close> or \<open>Microsoft basic data\<close> is the row of a partition with a one-digit number
  (its first field is \<open>/dev/sd\<close>, a lower-case letter and one digit), the parser returns
  exactly the first fields of these lines, in the order of the lines. When one of these
  lines does not match the extraction pattern the parser returns nothing: it raises
  AttributeError.
\<close>

theorem parser_returns_partitions_of_kept_rows:
  "(list_all spec_partition_row (spec_kept_lines disk (split_nl out)) \<longrightarrow>
      get_ntfs_partitions disk (Completed out)
        = Inr (map spec_first_field (spec_kept_lines disk (split_nl out)))) \<and>
   (list_ex (\<lambda>x. partition_re x = None) (spec_kept_lines disk (split_nl out)) \<longrightarrow>
      get_ntfs_partitions disk (Completed out) = Inl AttributeError)"
proof -
  let ?k = "spec_kept_lines disk (split_nl out)"
  have a: "get_ntfs_partitions disk (Completed out) = Inr (map spec_first_field ?k)"
    if "list_all spec_partition_row ?k"
    using ntfs_paths_of_rows [OF that] by (simp add: get_ntfs_partitions_Completed)
  have b: "get_ntfs_partitions disk (Completed out) = Inl AttributeError"
    if h: "list_ex (\<lambda>x. partition_re x = None) ?k"
  proof (cases "ntfs_paths_of ?k")
    case (Inl e)
    with ntfs_paths_of_Inl [OF Inl] show ?thesis by (simp add: get_ntfs_partitions_Completed)
  next
    case (Inr ps)
    from ntfs_paths_of_Inr_all [OF Inr] h have False by (auto simp: list_ex_iff)
    then show ?thesis ..
  qed
  from a b show ?thesis by blast
qed

theorem parser_returns_partitions_of_kept_rows_witness:
  "get_ntfs_partitions ''/dev/sdb''
     (Completed ''Disk /dev/sdb: 10 GiB\<newline>/dev/sdb1 2048 HPFS/NTFS/exFAT\<newline>/dev/sdb2 4096 Linux\<newline>/dev/sdb3 8192 Microsoft basic data\<newline>'')
     = Inr [''/dev/sdb1'', ''/dev/sdb3'']
   \<and> get_ntfs_partitions ''/dev/sdb'' (Completed ''/dev/sdb1 2048 HPFS/NTFS/exFAT\<newline>/dev/sdb: NTFS\<newline>'')
     = Inl AttributeError"
proof -
  let ?out = "''Disk /dev/sdb: 10 GiB\<newline>/dev/sdb1 2048 HPFS/NTFS/exFAT\<newline>/dev/sdb2 4096 Linux\<newline>/dev/sdb3 8192 Microsoft basic data\<newline>''"
  let ?bad = "''/dev/sdb1 2048 HPFS/NTFS/exFAT\<newline>/dev/sdb: NTFS\<newline>''"
  have h: "list_all spec_partition_row (spec_kept_lines ''/dev/sdb'' (split_nl ?out))"
    by code_simp
  have m: "map spec_first_field (spec_kept_lines ''/dev/sdb'' (split_nl ?out))
      = [''/dev/sdb1'', ''/dev/sdb3'']"
    by code_simp
  have g: "list_ex (\<lambda>x. partition_re x = None) (spec_kept_lines ''/dev/sdb'' (split_nl ?bad))"
    by code_simp
  from parser_returns_partitions_of_kept_rows [of "''/dev/sdb''" ?out] h
  have r1: "get_ntfs_partitions ''/dev/sdb'' (Completed ?out) = Inr [''/dev/sdb1'', ''/dev/sdb3'']"
    unfolding m by blast
  from parser_returns_partitions_of_kept_rows [of "''/dev/sdb''" ?bad] g
  have r2: "get_ntfs_partitions ''/dev/sdb'' (Completed ?bad) = Inl AttributeError" by blast
  from r1 r2 show ?thesis by blast
qed

text \<open>
  Claim C6, as stated, fails: a kept line that does not match the extraction pattern is
  not skipped. The call ends with AttributeError and returns no partition at all.
\<close>

theorem unparseable_line_is_fatal_counterexample:
  "get_ntfs_partitions ''/dev/sdb''
     (Completed ''/dev/sdb1 2048 HPFS/NTFS/exFAT\<newline>/dev/sdb: NTFS volume\<newline>'')
   = Inl AttributeError"
  by code_simp

text \<open>
  Claim C6, amended. When the tool completes, the parse fails with AttributeError exactly
  when some kept line does not match the extraction pattern; nothing is skipped. So a
  parse that returns has one partition for every kept line.
\<close>

theorem unparseable_line_fails_whole_parse:
  "(get_ntfs_partitions disk (Completed out) = Inl AttributeError \<longleftrightarrow>
      (\<exists>x \<in> set (spec_kept_lines disk (split_nl out)). partition_re x = None)) \<and>
   (get_ntfs_partitions disk (Completed out) = Inr ps \<longrightarrow>
      length ps = length (spec_kept_lines disk (split_nl out)))"
proof -
  let ?k = "spec_kept_lines disk (split_nl out)"
  have a: "get_ntfs_partitions disk (Completed out) = Inl AttributeError \<longleftrightarrow>
      (\<exists>x \<in> set ?k. partition_re x = None)"
  proof (cases "ntfs_paths_of ?k")
    case (Inl e)
    then show ?thesis using ntfs_paths_of_Inl[OF Inl] by (simp add: get_ntfs_partitions_Completed)
  next
    case (Inr qs)
    from ntfs_paths_of_Inr_all[OF Inr] show ?thesis
      using Inr by (simp add: get_ntfs_partitions_Completed)
  qed
  have b: "get_ntfs_partitions disk (Completed out) = Inr ps \<longrightarrow> length ps = length ?k"
  proof
    assume "get_ntfs_partitions disk (Completed out) = Inr ps"
    then have "map Some ps = map partition_re ?k"
      using ntfs_paths_of_Inr by (simp add: get_ntfs_partitions_Completed)
    then show "length ps = length ?k" by (rule map_eq_imp_length_eq)
  qed
  from a b show ?thesis by blast
qed

theorem unparseable_line_fails_whole_parse_witness:
  "get_ntfs_partitions ''/dev/sdb'' (Completed ''/dev/sdb1 NTFS\<newline>/dev/sdbx NTFS'') = Inl AttributeError
   \<and> (\<exists>x \<in> set (spec_kept_lines ''/dev/sdb'' (split_nl ''/dev/sdb1 NTFS\<newline>/dev/sdbx NTFS'')).
         partition_re x = None)
   \<and> get_ntfs_partitions ''/dev/sdb'' (Completed ''/dev/sdb1 NTFS\<newline>/dev/sdb2 NTFS'')
       = Inr [''/dev/sdb1'', ''/dev/sdb2'']
   \<and> length [''/dev/sdb1'', ''/dev/sdb2'']
       = length (spec_kept_lines ''/dev/sdb'' (split_nl ''/dev/sdb1 NTFS\<newline>/dev/sdb2 NTFS''))"
proof -
  have e: "get_ntfs_partitions ''/dev/sdb'' (Completed ''/dev/sdb1 NTFS\<newline>/dev/sdbx NTFS'') = Inl AttributeError"
    by code_simp
  have r: "get_ntfs_partitions ''/dev/sdb'' (Completed ''/dev/sdb1 NTFS\<newline>/dev/sdb2 NTFS'')
       = Inr [''/dev/sdb1'', ''/dev/sdb2'']"
    by code_simp
  from unparseable_line_fails_whole_parse [of "''/dev/sdb''" "''/dev/sdb1 NTFS\<newline>/dev/sdbx NTFS''"] e
    unparseable_line_fails_whole_parse [of "''/dev/sdb''" "''/dev/sdb1 NTFS\<newline>/dev/sdb2 NTFS''" "[''/dev/sdb1'', ''/dev/sdb2'']"] r
  show ?thesis by blast
qed

section \<open>The file system scanner: proofs\<close>

lemma walk_append:
  "walk sp (xs @ ys) d = walk sp xs d @ walk sp ys d"
proof (induction xs)
  case Nil show ?case by simp
next
  case (Cons e xs) then show ?case by (cases e) simp_all
qed

lemma list_files_bounds:
  "(\<forall>p \<in> set (list_files sp es d). length sp < length p \<and> length p \<le> length sp + nat (d + 1) \<and> take (length sp) p = sp)"
  "(\<forall>p \<in> set (walk sp es d). 0 \<le> d \<longrightarrow> length sp < length p \<and> length p \<le> length sp + nat (d + 1) \<and> take (length sp) p = sp)"
proof (induction sp es d and sp es d rule: list_files_walk.induct)
  case (1 start_path entries max_depth)
  then show ?case by auto
next
  case (4 start_path n s ch es max_depth)
  show ?case
  proof (intro ballI impI)
    fix p assume p: "p \<in> set (walk start_path (Dir n s ch # es) max_depth)" and d: "0 \<le> max_depth"
    show "length start_path < length p \<and> length p \<le> length start_path + nat (max_depth + 1) \<and> take (length start_path) p = start_path"
    proof (cases "\<not> s \<and> p \<in> set (list_files (start_path @ [n]) ch (max_depth - 1))")
      case True
      with 4(1) have h: "length (start_path @ [n]) < length p" "length p \<le> length (start_path @ [n]) + nat (max_depth - 1 + 1)"
        "take (length (start_path @ [n])) p = start_path @ [n]" by auto
      from h(3) have "take (length start_path) (take (length (start_path @ [n])) p) = start_path" by simp
      then have "take (length start_path) p = start_path" by (simp add: min_def)
      with h d show ?thesis by auto
    next
      case False
      with p have "p \<in> set (walk start_path es max_depth)" by (auto split: if_splits)
      with 4(2) d show ?thesis by auto
    qed
  qed
qed auto

lemma frames_bound:
  "list_files_frames es d \<le> nat (max d (-1) + 2)"
  "0 \<le> d \<Longrightarrow> walk_frames es d \<le> nat (d + 1)"
proof (induction es d and es d rule: list_files_frames_walk_frames.induct)
  case (1 entries max_depth)
  then show ?case by (auto simp: max_def)
next
  case (4 n s ch es max_depth)
  then show ?case by (auto simp: max_def split: if_splits)
qed auto

lemma rfind_last: "c \<notin> set ys \<Longrightarrow> rfind c (xs @ c # ys) = Some (length xs)"
proof (induction xs)
  case Nil
  have "c \<notin> set ys \<Longrightarrow> rfind c ys = None" by (induction ys) (auto split: option.splits)
  with Nil show ?case by simp
next
  case (Cons x xs) then show ?case by simp
qed

lemma suffix_of_ext:
  "stem \<noteq> [] \<Longrightarrow> ext \<noteq> [] \<Longrightarrow> CHR ''.'' \<notin> set ext \<Longrightarrow> suffix_of (stem @ CHR ''.'' # ext) = CHR ''.'' # ext"
  by (simp add: suffix_of_def rfind_last)

lemma count_images_filter:
  "count_images u es = length (filter (\<lambda>f. lower (path_suffix f) \<in> set IMAGE_EXTENSIONS) (list_files u es 5))"
proof -
  have "fold (\<lambda>f images. if P f then images + 1 else images) fs k = k + length (filter P fs)" for P fs and k :: nat
    by (induction fs arbitrary: k) auto
  from this [of "\<lambda>f. lower (path_suffix f) \<in> set IMAGE_EXTENSIONS" "list_files u es 5" 0]
  show ?thesis by (simp add: count_images_def)
qed

lemma users_loop_iff:
  "(p, ch) \<in> set (users_loop up es) \<longleftrightarrow>
     (\<exists>n s. Dir n s ch \<in> set es \<and> p = up @ [n] \<and> (path_exists ch ''ntuser.dat'' \<or> path_exists ch ''NTUSER.DAT''))"
proof (induction es)
  case Nil show ?case by simp
next
  case (Cons e es) then show ?case by (cases e) auto
qed


lemma lower_char_iff:
  assumes "\<not> (65 \<le> (of_char y :: nat) \<and> (of_char y :: nat) \<le> 90)"
  shows "(lower_char x = y) = (x = y \<or> (is_lower_az y \<and> (of_char x :: nat) + 32 = of_char y))"
proof (cases "65 \<le> (of_char x :: nat) \<and> (of_char x :: nat) \<le> 90")
  case True
  then have lc: "lower_char x = char_of ((of_char x :: nat) + 32)" by (simp add: lower_char_def)
  have ne: "x \<noteq> y" using True assms by auto
  have "(char_of ((of_char x :: nat) + 32) = y) = ((of_char x :: nat) + 32 = of_char y)"
  proof
    assume "char_of ((of_char x :: nat) + 32) = y"
    then have "(of_char y :: nat) = ((of_char x :: nat) + 32) mod 256" by (metis of_char_of)
    with True show "(of_char x :: nat) + 32 = of_char y" by simp
  next
    assume "(of_char x :: nat) + 32 = of_char y"
    then show "char_of ((of_char x :: nat) + 32) = y" by simp
  qed
  with lc ne True show ?thesis by (auto simp: is_lower_az_def)
next
  case False
  then have lc: "lower_char x = x" by (auto simp: lower_char_def)
  have "\<not> (is_lower_az y \<and> (of_char x :: nat) + 32 = of_char y)"
    using False by (auto simp: is_lower_az_def)
  with lc show ?thesis by auto
qed

lemma lower_iff:
  "list_all (\<lambda>y. \<not> (65 \<le> (of_char y :: nat) \<and> (of_char y :: nat) \<le> 90)) b \<Longrightarrow>
   (lower a = b) = spec_matches_nocase a b"
proof (induction a b rule: spec_matches_nocase.induct)
  case 1 show ?case by (simp add: lower_def)
next
  case (2 x xs y ys)
  then have "(lower xs = ys) = spec_matches_nocase xs ys" by simp
  moreover from 2 have "(lower_char x = y) = (x = y \<or> (is_lower_az y \<and> (of_char x :: nat) + 32 = of_char y))"
    using lower_char_iff by simp
  ultimately show ?case by (simp add: lower_def)
qed (simp_all add: lower_def)

lemma image_ext_iff:
  "(lower e \<in> set IMAGE_EXTENSIONS)
     = list_ex (spec_matches_nocase e) [''.png'', ''.jpg'', ''.jpeg'', ''.cr2'']"
proof -
  have p: "list_all (\<lambda>y. \<not> (65 \<le> (of_char y :: nat) \<and> (of_char y :: nat) \<le> 90)) b"
    if "b \<in> set [''.png'', ''.jpg'', ''.jpeg'', ''.cr2'', ''.txt'', ''.dat'']" for b
    using that by auto
  show ?thesis
    by (simp add: IMAGE_EXTENSIONS_def lower_iff [OF p])
qed

lemma nocase_no_dot:
  "spec_matches_nocase r p \<Longrightarrow> CHR ''.'' \<notin> set p \<Longrightarrow> CHR ''.'' \<notin> set r \<and> length r = length p"
proof (induction r p rule: spec_matches_nocase.induct)
  case (2 x xs y ys)
  then have "x \<noteq> CHR ''.''" by (auto simp: is_lower_az_def)
  with 2 show ?case by simp
qed simp_all

lemma nocase_ext:
  assumes "spec_matches_nocase e (CHR ''.'' # p)" "p \<noteq> []" "CHR ''.'' \<notin> set p" "stem \<noteq> []"
  shows "suffix_of (stem @ e) = e"
proof -
  from assms(1) obtain x r where e: "e = x # r" by (cases e) auto
  with assms(1) have x: "x = CHR ''.''" and r: "spec_matches_nocase r p"
    by (auto simp: is_lower_az_def)
  from nocase_no_dot [OF r assms(3)] assms(2) have "CHR ''.'' \<notin> set r" "r \<noteq> []" by auto
  then show ?thesis unfolding e x using assms(4)
    by (simp add: suffix_of_def rfind_last)
qed

text \<open>
  Claim C8. Every path that \<open>list_files\<close> returns lies below the start path, at most
  \<open>max_depth\<close> directories down (so at most \<open>max_depth + 1\<close> components longer than the
  start path): files beyond the limit are absent. A call whose depth counter is exhausted
  (negative) returns the empty result. The call stack never holds more than
  \<open>max_depth + 2\<close> activations of \<open>list_files\<close>, whatever the depth of the tree, which is
  7 for the default \<open>max_depth = 5\<close>, far below Python's recursion limit.
\<close>

theorem list_files_depth_limited:
  "(\<forall>p \<in> set (list_files sp es d).
      length sp < length p \<and> length p \<le> length sp + nat (d + 1) \<and> take (length sp) p = sp) \<and>
   (d < 0 \<longrightarrow> list_files sp es d = []) \<and>
   list_files_frames es d \<le> nat (max d (-1) + 2)"
  using list_files_bounds(1) [of sp es d] frames_bound(1) [of es d] by simp

theorem list_files_depth_limited_witness:
  "list_files [''u'']
     [File ''f0'' False, Dir ''d'' False [File ''f1'' False, Dir ''d'' False [File ''f2'' False,
      Dir ''d'' False [File ''f3'' False, Dir ''d'' False [File ''f4'' False, Dir ''d'' False
      [File ''f5'' False, Dir ''d'' False [File ''f6'' False, Dir ''d'' False
      [File ''f7'' False]]]]]]]] 5
     = [[''u'', ''f0''], [''u'', ''d'', ''f1''], [''u'', ''d'', ''d'', ''f2''],
        [''u'', ''d'', ''d'', ''d'', ''f3''], [''u'', ''d'', ''d'', ''d'', ''d'', ''f4''],
        [''u'', ''d'', ''d'', ''d'', ''d'', ''d'', ''f5'']]
   \<and> list_all (\<lambda>p. length [''u''] < length p \<and> length p \<le> length [''u''] + nat (5 + 1)
                    \<and> take (length [''u'']) p = [''u''])
        (list_files [''u'']
     [File ''f0'' False, Dir ''d'' False [File ''f1'' False, Dir ''d'' False [File ''f2'' False,
      Dir ''d'' False [File ''f3'' False, Dir ''d'' False [File ''f4'' False, Dir ''d'' False
      [File ''f5'' False, Dir ''d'' False [File ''f6'' False, Dir ''d'' False
      [File ''f7'' False]]]]]]]] 5)
   \<and> list_files [''u''] [File ''f0'' False] (-1) = []
   \<and> list_files_frames
     [File ''f0'' False, Dir ''d'' False [File ''f1'' False, Dir ''d'' False [File ''f2'' False,
      Dir ''d'' False [File ''f3'' False, Dir ''d'' False [File ''f4'' False, Dir ''d'' False
      [File ''f5'' False, Dir ''d'' False [File ''f6'' False, Dir ''d'' False
      [File ''f7'' False]]]]]]]] 5 \<le> 7"
proof -
  let ?t = "[File ''f0'' False, Dir ''d'' False [File ''f1'' False, Dir ''d'' False [File ''f2'' False,
      Dir ''d'' False [File ''f3'' False, Dir ''d'' False [File ''f4'' False, Dir ''d'' False
      [File ''f5'' False, Dir ''d'' False [File ''f6'' False, Dir ''d'' False
      [File ''f7'' False]]]]]]]]"
  have v: "list_files [''u''] ?t 5
     = [[''u'', ''f0''], [''u'', ''d'', ''f1''], [''u'', ''d'', ''d'', ''f2''],
        [''u'', ''d'', ''d'', ''d'', ''f3''], [''u'', ''d'', ''d'', ''d'', ''d'', ''f4''],
        [''u'', ''d'', ''d'', ''d'', ''d'', ''d'', ''f5'']]"
    by code_simp
  have n: "(-1::int) < 0" by simp
  from list_files_depth_limited [of "[''u'']" ?t 5]
  have a: "list_all (\<lambda>p. length [''u''] < length p \<and> length p \<le> length [''u''] + nat (5 + 1)
                    \<and> take (length [''u'']) p = [''u'']) (list_files [''u''] ?t 5)"
    and f: "list_files_frames ?t 5 \<le> 7"
    unfolding list_all_iff by simp_all
  from list_files_depth_limited [of "[''u'']" "[File ''f0'' False]" "-1"] n
  have e: "list_files [''u''] [File ''f0'' False] (-1) = []" by blast
  from v a e f show ?thesis by blast
qed

text \<open>
  Claim C9. In the scenario of the claim (one profile \<open>alice\<close> with the marker in lower
  or upper case and three files whose extensions are \<open>.jpg\<close>, \<open>.jpg\<close> and \<open>.txt\<close> in any
  mix of upper and lower case, and a directory \<open>bob\<close> without a marker under either
  spelling) \<open>get_users\<close> returns exactly alice and \<open>count_images\<close> gives 2 for her. In
  general a subdirectory of the users directory is returned exactly when \<open>ntuser.dat\<close> or
  \<open>NTUSER.DAT\<close> exists directly inside it, and \<open>count_images\<close> is the number of listed
  files whose suffix agrees with one of \<open>.png\<close>, \<open>.jpg\<close>, \<open>.jpeg\<close>, \<open>.cr2\<close> up to the
  case of its letters, whatever their size.
\<close>

theorem users_and_image_count_scenario:
  assumes "a \<noteq> []" "b \<noteq> []" "c \<noteq> []"
    and "spec_matches_nocase e1 ''.jpg''" "spec_matches_nocase e2 ''.jpg''"
    and "spec_matches_nocase e3 ''.txt''"
    and "marker = ''ntuser.dat'' \<or> marker = ''NTUSER.DAT''"
    and "\<not> path_exists bob ''ntuser.dat''" "\<not> path_exists bob ''NTUSER.DAT''"
    and "alice = [File marker False, File (a @ e1) False,
                  File (b @ e2) False, File (c @ e3) False]"
  shows "get_users [Dir ''Users'' False [Dir ''alice'' False alice, Dir ''bob'' False bob]]
           = Inr [(MOUNT_POINT_parts @ [''Users'', ''alice''], alice)]
         \<and> count_images (MOUNT_POINT_parts @ [''Users'', ''alice'']) alice = 2
         \<and> ((p, ch) \<in> set (users_loop up es) \<longleftrightarrow>
              (\<exists>n s. Dir n s ch \<in> set es \<and> p = up @ [n] \<and>
                 (path_exists ch ''ntuser.dat'' \<or> path_exists ch ''NTUSER.DAT'')))
         \<and> count_images u fs
             = length (filter (\<lambda>f. list_ex (spec_matches_nocase (path_suffix f))
                                      [''.png'', ''.jpg'', ''.jpeg'', ''.cr2''])
                 (list_files u fs 5))"
proof -
  have s1: "suffix_of (a @ e1) = e1" using nocase_ext [OF assms(4) _ _ assms(1)] by simp
  have s2: "suffix_of (b @ e2) = e2" using nocase_ext [OF assms(5) _ _ assms(2)] by simp
  have s3: "suffix_of (c @ e3) = e3" using nocase_ext [OF assms(6) _ _ assms(3)] by simp
  have l1: "lower e1 = ''.jpg''" using assms(4) lower_iff [of "''.jpg''" e1] by simp
  have l2: "lower e2 = ''.jpg''" using assms(5) lower_iff [of "''.jpg''" e2] by simp
  have l3: "lower e3 = ''.txt''" using assms(6) lower_iff [of "''.txt''" e3] by simp
  have i1: "''.jpg'' \<in> set IMAGE_EXTENSIONS" by (simp add: IMAGE_EXTENSIONS_def)
  have i3: "''.txt'' \<notin> set IMAGE_EXTENSIONS" by (simp add: IMAGE_EXTENSIONS_def)
  have d1: "lower (suffix_of ''ntuser.dat'') \<notin> set IMAGE_EXTENSIONS" by code_simp
  have d2: "lower (suffix_of ''NTUSER.DAT'') \<notin> set IMAGE_EXTENSIONS" by code_simp
  from assms(7) d1 d2 have l0: "lower (suffix_of marker) \<notin> set IMAGE_EXTENSIONS" by auto
  have m: "path_exists alice ''ntuser.dat'' \<or> path_exists alice ''NTUSER.DAT''"
    using assms(7) by (auto simp: assms(10) path_exists_def)
  have g: "get_users [Dir ''Users'' False [Dir ''alice'' False alice, Dir ''bob'' False bob]]
           = Inr [(MOUNT_POINT_parts @ [''Users'', ''alice''], alice)]"
    using m assms(8,9) by (auto simp: get_users_def lookup_entry_def Let_def)
  have c: "count_images (MOUNT_POINT_parts @ [''Users'', ''alice'']) alice = 2"
    unfolding count_images_filter assms(10) using s1 s2 s3 l0 l1 l2 l3 i1 i3
    by (simp add: path_suffix_def)
  have k: "count_images u fs
             = length (filter (\<lambda>f. list_ex (spec_matches_nocase (path_suffix f))
                                      [''.png'', ''.jpg'', ''.jpeg'', ''.cr2''])
                 (list_files u fs 5))"
    unfolding count_images_filter image_ext_iff ..
  from g c k users_loop_iff [of p ch up es] show ?thesis by blast
qed

theorem users_and_image_count_scenario_witness:
  "get_users [Dir ''Users'' False
       [Dir ''alice'' False [File ''NTUSER.DAT'' False, File ''holiday.JPG'' False,
                             File ''beach.Jpg'' False, File ''notes.TXT'' False],
        Dir ''bob'' False [File ''photo.jpg'' False]]]
     = Inr [([''/'', ''mnt'', ''4'', ''Users'', ''alice''],
             [File ''NTUSER.DAT'' False, File ''holiday.JPG'' False,
              File ''beach.Jpg'' False, File ''notes.TXT'' False])]
   \<and> count_images [''/'', ''mnt'', ''4'', ''Users'', ''alice'']
        [File ''NTUSER.DAT'' False, File ''holiday.JPG'' False,
         File ''beach.Jpg'' False, File ''notes.TXT'' False] = 2
   \<and> count_images [''u'']
        [File ''a.PNG'' False, File ''b.jPeG'' False, File ''c.Cr2'' False, File ''d.jpg'' False,
         File ''e.JPGX'' False, File ''f.tiff'' False, File ''JPG'' False]
       = length (filter (\<lambda>f. list_ex (spec_matches_nocase (path_suffix f))
                                      [''.png'', ''.jpg'', ''.jpeg'', ''.cr2''])
           (list_files [''u'']
              [File ''a.PNG'' False, File ''b.jPeG'' False, File ''c.Cr2'' False, File ''d.jpg'' False,
               File ''e.JPGX'' False, File ''f.tiff'' False, File ''JPG'' False] 5))
   \<and> count_images [''u'']
        [File ''a.PNG'' False, File ''b.jPeG'' False, File ''c.Cr2'' False, File ''d.jpg'' False,
         File ''e.JPGX'' False, File ''f.tiff'' False, File ''JPG'' False] = 4"
proof -
  have b1: "\<not> path_exists [File ''photo.jpg'' False] ''ntuser.dat''" by code_simp
  have b2: "\<not> path_exists [File ''photo.jpg'' False] ''NTUSER.DAT''" by code_simp
  have n: "''holiday'' \<noteq> []" "''beach'' \<noteq> []" "''notes'' \<noteq> []" by simp_all
  have e: "spec_matches_nocase ''.JPG'' ''.jpg''" "spec_matches_nocase ''.Jpg'' ''.jpg''"
    "spec_matches_nocase ''.TXT'' ''.txt''" by code_simp+
  have mk: "''NTUSER.DAT'' = ''ntuser.dat'' \<or> ''NTUSER.DAT'' = ''NTUSER.DAT''" by simp
  have al: "[File ''NTUSER.DAT'' False, File ''holiday.JPG'' False,
             File ''beach.Jpg'' False, File ''notes.TXT'' False]
          = [File ''NTUSER.DAT'' False, File (''holiday'' @ ''.JPG'') False,
             File (''beach'' @ ''.Jpg'') False, File (''notes'' @ ''.TXT'') False]" by simp
  note r = users_and_image_count_scenario [OF n e mk b1 b2 al]
  have v: "count_images [''u'']
        [File ''a.PNG'' False, File ''b.jPeG'' False, File ''c.Cr2'' False, File ''d.jpg'' False,
         File ''e.JPGX'' False, File ''f.tiff'' False, File ''JPG'' False] = 4"
    by code_simp
  from r [THEN conjunct1] r [THEN conjunct2, THEN conjunct1]
  have a: "get_users [Dir ''Users'' False
       [Dir ''alice'' False [File ''NTUSER.DAT'' False, File ''holiday.JPG'' False,
                             File ''beach.Jpg'' False, File ''notes.TXT'' False],
        Dir ''bob'' False [File ''photo.jpg'' False]]]
     = Inr [([''/'', ''mnt'', ''4'', ''Users'', ''alice''],
             [File ''NTUSER.DAT'' False, File ''holiday.JPG'' False,
              File ''beach.Jpg'' False, File ''notes.TXT'' False])]
   \<and> count_images [''/'', ''mnt'', ''4'', ''Users'', ''alice'']
        [File ''NTUSER.DAT'' False, File ''holiday.JPG'' False,
         File ''beach.Jpg'' False, File ''notes.TXT'' False] = 2"
    by (simp add: MOUNT_POINT_parts_def)
  from a v r [THEN conjunct2, THEN conjunct2, THEN conjunct2] show ?thesis by blast
qed

text \<open>
  Claim C10, as stated, fails: symbolic links to directories are not the only links left
  out of the walk. Of a pipe, a dangling link, a link to a socket and a link to a regular
  file, only the last one is listed.
\<close>

theorem other_links_are_excluded_counterexample:
  "list_files [''u'']
     [Special ''fifo.jpg'' False, Dangling ''x.jpg'', Special ''s.png'' True, File ''ok.jpg'' True] 5
     = [[''u'', ''ok.jpg'']]
   \<and> count_images [''u'']
     [Special ''fifo.jpg'' False, Dangling ''x.jpg'', Special ''s.png'' True, File ''ok.jpg'' True]
     = 1"
  by code_simp

text \<open>
  Claim C10, amended. Within the depth limit an entry that is a regular file is listed,
  whether it is a symbolic link or not, and a directory that is not a symbolic link is
  descended with the depth counter reduced by one. A symbolic link to a directory, a
  dangling link and an entry that is neither a regular file nor a directory (itself or
  behind a link) add nothing, whatever they hold or are called. So \<open>count_images\<close>
  counts a link to a regular file exactly when its suffix agrees with an image extension
  up to case, and the other links add nothing to the count.
\<close>

theorem entries_of_the_walk:
  "(0 \<le> d \<longrightarrow> list_files sp (xs @ File n s # ys) d
        = list_files sp xs d @ (sp @ [n]) # list_files sp ys d) \<and>
   (0 \<le> d \<longrightarrow> list_files sp (xs @ Dir n False ch # ys) d
        = list_files sp xs d @ list_files (sp @ [n]) ch (d - 1) @ list_files sp ys d) \<and>
   list_files sp (xs @ Dir n True ch # ys) d = list_files sp (xs @ ys) d \<and>
   list_files sp (xs @ Dangling n # ys) d = list_files sp (xs @ ys) d \<and>
   list_files sp (xs @ Special n s # ys) d = list_files sp (xs @ ys) d \<and>
   count_images u (xs @ File n True # ys)
     = count_images u (xs @ ys)
       + (if list_ex (spec_matches_nocase (suffix_of n)) [''.png'', ''.jpg'', ''.jpeg'', ''.cr2'']
          then 1 else 0) \<and>
   count_images u (xs @ Dir n True ch # ys) = count_images u (xs @ ys) \<and>
   count_images u (xs @ Dangling n # ys) = count_images u (xs @ ys) \<and>
   count_images u (xs @ Special n s # ys) = count_images u (xs @ ys)"
  by (simp add: count_images_filter walk_append path_suffix_def image_ext_iff)

theorem entries_of_the_walk_witness:
  "list_files [''u''] ([File ''a.txt'' False] @ File ''link.JPG'' True # [File ''b.png'' False]) 5
     = [[''u'', ''a.txt''], [''u'', ''link.JPG''], [''u'', ''b.png'']]
   \<and> list_files [''u'']
       ([File ''a.txt'' False] @ Dir ''pics'' False [File ''c.jpg'' False] # [File ''b.png'' False]) 5
     = [[''u'', ''a.txt''], [''u'', ''pics'', ''c.jpg''], [''u'', ''b.png'']]
   \<and> list_files [''u'']
       ([File ''a.txt'' False] @ Dir ''pics'' True [File ''c.jpg'' False] # [File ''b.png'' False]) 5
     = [[''u'', ''a.txt''], [''u'', ''b.png'']]
   \<and> count_images [''u''] ([File ''a.txt'' False] @ File ''link.JPG'' True # [File ''b.png'' False]) = 2
   \<and> count_images [''u''] ([File ''a.txt'' False] @ Dir ''pics'' True [File ''c.jpg'' False]
         # [File ''b.png'' False]) = 1"
proof -
  have d: "(0::int) \<le> 5" by simp
  have a: "list_files [''u''] [File ''a.txt'' False] 5 = [[''u'', ''a.txt'']]" by code_simp
  have b: "list_files [''u''] [File ''b.png'' False] 5 = [[''u'', ''b.png'']]" by code_simp
  have ab: "list_files [''u''] ([File ''a.txt'' False] @ [File ''b.png'' False]) 5
      = [[''u'', ''a.txt''], [''u'', ''b.png'']]" by code_simp
  have p: "list_files ([''u''] @ [''pics'']) [File ''c.jpg'' False] (5 - 1) = [[''u'', ''pics'', ''c.jpg'']]"
    by code_simp
  have c: "count_images [''u''] ([File ''a.txt'' False] @ [File ''b.png'' False]) = 1" by code_simp
  have l: "list_ex (spec_matches_nocase (suffix_of ''link.JPG'')) [''.png'', ''.jpg'', ''.jpeg'', ''.cr2'']"
    by code_simp
  note r1 = entries_of_the_walk [of 5 "[''u'']" "[File ''a.txt'' False]" "''link.JPG''" True
      "[File ''b.png'' False]" "[File ''c.jpg'' False]" "[''u'']"]
  note r2 = entries_of_the_walk [of 5 "[''u'']" "[File ''a.txt'' False]" "''pics''" True
      "[File ''b.png'' False]" "[File ''c.jpg'' False]" "[''u'']"]
  from r1 d a b have t1: "list_files [''u'']
      ([File ''a.txt'' False] @ File ''link.JPG'' True # [File ''b.png'' False]) 5
     = [[''u'', ''a.txt''], [''u'', ''link.JPG''], [''u'', ''b.png'']]" by simp
  from r2 d a b p have t2: "list_files [''u'']
       ([File ''a.txt'' False] @ Dir ''pics'' False [File ''c.jpg'' False] # [File ''b.png'' False]) 5
     = [[''u'', ''a.txt''], [''u'', ''pics'', ''c.jpg''], [''u'', ''b.png'']]" by simp
  from r2 ab have t3: "list_files [''u'']
       ([File ''a.txt'' False] @ Dir ''pics'' True [File ''c.jpg'' False] # [File ''b.png'' False]) 5
     = [[''u'', ''a.txt''], [''u'', ''b.png'']]" by simp
  from r1 c l have t4: "count_images [''u'']
      ([File ''a.txt'' False] @ File ''link.JPG'' True # [File ''b.png'' False]) = 2" by simp
  from r2 c have t5: "count_images [''u''] ([File ''a.txt'' False] @ Dir ''pics'' True [File ''c.jpg'' False]
         # [File ''b.png'' False]) = 1" by simp
  from t1 t2 t3 t4 t5 show ?thesis by blast
qed

section \<open>The mount controller: proofs\<close>

lemma split_nl_not_Nil: "split_nl s \<noteq> []"
  by (induction s) (auto split: list.splits)

text \<open>
  Claim C5 is right about the intention and the code misses it: a call that supplies the
  partition but no destination raises UnboundLocalError, whatever the mount list holds.
  The third branch of the chain, written for this case, tests \<open>dest is not None\<close> and is
  never taken, so \<open>regex\<close> is read before it is assigned.
\<close>

theorem is_mounted_partition_only_raises:
  "is_mounted (Some part) None stdout = Inl UnboundLocalError"
  using split_nl_not_Nil [of stdout]
  by (cases "split_nl stdout") (simp_all add: is_mounted_def regex_for_def)

theorem is_mounted_partition_only_raises_witness:
  "is_mounted (Some ''/dev/sdb1'') None ''/dev/sdb1 on /mnt/4 type fuseblk (rw)\<newline>''
     = Inl UnboundLocalError"
  by (rule is_mounted_partition_only_raises)


section \<open>The orchestrator: proofs\<close>

lemma ask_question_n:
  "stdin w \<noteq> [] \<Longrightarrow> hd (stdin w) = ''n'' \<Longrightarrow>
   ask_question q [''Y'', ''n''] w
     = (Inr ''n'', w\<lparr>stdin := tl (stdin w), trace := trace w @ [Input q]\<rparr>)"
proof -
  assume a: "stdin w \<noteq> []" "hd (stdin w) = ''n''"
  then obtain rest where s: "stdin w = ''n'' # rest" by (cases "stdin w") auto
  have l: "lower ''n'' = ''n''" by code_simp
  show ?thesis using s l by (simp add: ask_question_def Let_def)
qed

lemma root_at_upd:
  "root_at (w\<lparr>trace := t\<rparr>) mp = root_at w mp"
  "root_at (w\<lparr>stdin := i\<rparr>) mp = root_at w mp"
  by (simp_all add: root_at_def)


text \<open>
  Claim C3 is right about the intention and the code misses it. When something is already
  mounted at the mount point, \<open>mount\<close> does not run the mount utility and asks the
  operator; but when the operator answers \<open>n\<close> it leaves through a bare \<open>return\<close>. The
  value is \<open>None\<close>, which the caller's \<open>if mount(...)\<close> takes for success: whenever the
  users directory can be read, \<open>process_ntfs_partition\<close> goes on to scan what is mounted
  there and returns \<open>False\<close>.
\<close>

theorem declined_conflict_is_scanned:
  assumes "is_mounted None (Some MOUNT_POINT) (mount_stdout w) = Inr True"
    and "stdin w = ''n'' # rest"
  shows "mount part MOUNT_POINT w
           = (Inr None, w\<lparr>stdin := rest,
                trace := trace w @ [RunMountList,
                  Input (part @ '' is already mounted on '' @ MOUNT_POINT @ '', continue?'')]\<rparr>)
         \<and> (get_users (root_at w MOUNT_POINT) = Inr users \<longrightarrow>
              fst (process_ntfs_partition part w) = Inr False \<and>
              trace (snd (process_ntfs_partition part w))
                = trace w @ [RunMountList,
                    Input (part @ '' is already mounted on '' @ MOUNT_POINT @ '', continue?''),
                    Log INFO ''Found users {}'' [L (map (\<lambda>x. path_name (fst x)) users)]]
                  @ user_events users @ [Log INFO ''Took {}s to scan partition'' []])"
proof -
  let ?q = "part @ '' is already mounted on '' @ MOUNT_POINT @ '', continue?''"
  let ?w1 = "w\<lparr>trace := trace w @ [RunMountList]\<rparr>"
  let ?w2 = "w\<lparr>stdin := rest, trace := trace w @ [RunMountList, Input ?q]\<rparr>"
  have r: "run_is_mounted None (Some MOUNT_POINT) w = (Inr True, ?w1)"
    using assms(1) by (simp add: run_is_mounted_def)
  have m: "mount part MOUNT_POINT w = (Inr None, ?w2)"
    unfolding mount_def using assms(2) by (simp add: then_do_def r ask_question_n ret_def)
  have p: "get_users (root_at w MOUNT_POINT) = Inr users \<Longrightarrow>
      process_ntfs_partition part w = (Inr False, ?w2\<lparr>trace := trace ?w2 @ [Log INFO ''Found users {}'' [L (map (\<lambda>x. path_name (fst x)) users)]]
                  @ user_events users @ [Log INFO ''Took {}s to scan partition'' []]\<rparr>)"
    unfolding process_ntfs_partition_def
    by (simp add: m root_at_upd then_do_def emit_def ret_def)
  from m p show ?thesis by auto
qed


theorem declined_conflict_is_scanned_witness:
  "fst (mount ''/dev/sdb1'' MOUNT_POINT conflict_world) = Inr None
   \<and> trace (snd (mount ''/dev/sdb1'' MOUNT_POINT conflict_world))
       = [RunMountList, Input ''/dev/sdb1 is already mounted on /mnt/4, continue?'']
   \<and> fst (process_ntfs_partition ''/dev/sdb1'' conflict_world) = Inr False
   \<and> trace (snd (process_ntfs_partition ''/dev/sdb1'' conflict_world))
       = [RunMountList, Input ''/dev/sdb1 is already mounted on /mnt/4, continue?'',
          Log INFO ''Found users {}'' [L [''carol'']],
          Print ''Found user {:<16} with {:<6} images'' [S ''carol'', N 1],
          Log INFO ''User {} has {} images'' [S ''carol'', N 1],
          Log INFO ''Took {}s to scan partition'' []]"
proof -
  let ?us = "[([''/'', ''mnt'', ''4'', ''Users'', ''carol''],
               [File ''NTUSER.DAT'' False, File ''x.png'' False])]"
  have a1: "is_mounted None (Some MOUNT_POINT) (mount_stdout conflict_world) = Inr True"
    by code_simp
  have a2: "stdin conflict_world = ''n'' # []" by (simp add: conflict_world_def)
  have a3: "get_users (root_at conflict_world MOUNT_POINT) = Inr ?us" by code_simp
  have ue: "user_events ?us
      = [Print ''Found user {:<16} with {:<6} images'' [S ''carol'', N 1],
         Log INFO ''User {} has {} images'' [S ''carol'', N 1]]"
    by code_simp
  have nm: "map (\<lambda>x. path_name (fst x)) ?us = [''carol'']" by code_simp
  have tr: "trace conflict_world = []" by (simp add: conflict_world_def)
  note r = declined_conflict_is_scanned [OF a1 a2, of "''/dev/sdb1''" ?us]
  from r [THEN conjunct1]
  have m: "fst (mount ''/dev/sdb1'' MOUNT_POINT conflict_world) = Inr None"
    and mt: "trace (snd (mount ''/dev/sdb1'' MOUNT_POINT conflict_world))
       = [RunMountList, Input ''/dev/sdb1 is already mounted on /mnt/4, continue?'']"
    by (simp_all add: tr MOUNT_POINT_def)
  from r [THEN conjunct2] a3
  have p: "fst (process_ntfs_partition ''/dev/sdb1'' conflict_world) = Inr False"
    and pt: "trace (snd (process_ntfs_partition ''/dev/sdb1'' conflict_world))
       = [RunMountList, Input ''/dev/sdb1 is already mounted on /mnt/4, continue?'',
          Log INFO ''Found users {}'' [L [''carol'']],
          Print ''Found user {:<16} with {:<6} images'' [S ''carol'', N 1],
          Log INFO ''User {} has {} images'' [S ''carol'', N 1],
          Log INFO ''Took {}s to scan partition'' []]"
    unfolding ue nm by (simp_all add: tr MOUNT_POINT_def)
  from m mt p pt show ?thesis by blast
qed

lemma get_disk_serial_eq:
  "get_disk_serial path w =
     (case first_serial (split_nl (udevadm w path)) of
        Some serial \<Rightarrow> (Inr serial, w\<lparr>trace := trace w @ [RunUdevadm path]\<rparr>)
      | None \<Rightarrow> (Inr [], w\<lparr>trace := trace w @ [RunUdevadm path,
            Log WARNING ''Failed to get serial number for {}. Using {}'' [S path, S ''None'']]\<rparr>))"
  by (simp add: get_disk_serial_def then_do_def emit_def ret_def split: option.splits)

text \<open>
  Claim C4, as stated, fails: on a timeout \<open>process_disk\<close> does not log that there are no
  NTFS partitions and return; it ends with the exception TimeoutExpired.
\<close>

theorem timeout_is_not_zero_partitions_counterexample:
  "fst (process_disk ''/dev/sdb'' timeout_world) = Inl TimeoutExpired
   \<and> trace (snd (process_disk ''/dev/sdb'' timeout_world))
       = [RunUdevadm ''/dev/sdb'', Log INFO ''Processing disk {}'' [S ''WD123''],
          Print ''Found disk {}'' [S ''WD123''], RunFdisk ''/dev/sdb'']"
  by code_simp

text \<open>
  Claim C4, amended. When the partition table tool times out, \<open>get_ntfs_partitions\<close>
  raises TimeoutExpired and \<open>process_disk\<close> does not catch it: the exception leaves
  \<open>process_disk\<close>. Up to then the disk's serial was queried and reported and the tool was
  run; nothing about missing NTFS partitions is logged or printed, no mount is attempted
  and the mounts are left as they were.
\<close>

theorem timeout_propagates_out_of_process_disk:
  assumes "fdisk w path = TimedOut"
  shows "fst (process_disk path w) = Inl TimeoutExpired
     \<and> trace (snd (process_disk path w))
         = trace w @ RunUdevadm path #
             (case first_serial (split_nl (udevadm w path)) of
                Some serial \<Rightarrow>
                  [Log INFO ''Processing disk {}'' [S serial], Print ''Found disk {}'' [S serial]]
              | None \<Rightarrow>
                  [Log WARNING ''Failed to get serial number for {}. Using {}'' [S path, S ''None''],
                   Log INFO ''Processing disk {}'' [S []], Print ''Found disk {}'' [S []]])
             @ [RunFdisk path]
     \<and> mounted (snd (process_disk path w)) = mounted w"
  using assms
  by (simp add: process_disk_def get_disk_serial_eq then_do_def emit_def
      run_get_ntfs_partitions_def get_ntfs_partitions_def split: option.splits)

theorem timeout_propagates_out_of_process_disk_witness:
  "fst (process_disk ''/dev/sdc'' (timeout_world\<lparr>udevadm := (\<lambda>d. [])\<rparr>)) = Inl TimeoutExpired
   \<and> trace (snd (process_disk ''/dev/sdc'' (timeout_world\<lparr>udevadm := (\<lambda>d. [])\<rparr>)))
       = [RunUdevadm ''/dev/sdc'',
          Log WARNING ''Failed to get serial number for {}. Using {}'' [S ''/dev/sdc'', S ''None''],
          Log INFO ''Processing disk {}'' [S []], Print ''Found disk {}'' [S []],
          RunFdisk ''/dev/sdc'']
   \<and> mounted (snd (process_disk ''/dev/sdc'' (timeout_world\<lparr>udevadm := (\<lambda>d. [])\<rparr>))) = []"
proof -
  let ?w = "timeout_world\<lparr>udevadm := (\<lambda>d. [])\<rparr>"
  have a: "fdisk ?w ''/dev/sdc'' = TimedOut" by (simp add: timeout_world_def)
  have f: "first_serial (split_nl (udevadm ?w ''/dev/sdc'')) = None" by (simp add: timeout_world_def)
  have t: "trace ?w = []" "mounted ?w = []" by (simp_all add: timeout_world_def)
  from timeout_propagates_out_of_process_disk [OF a]
  show ?thesis unfolding f by (simp add: t)
qed








section \<open>The polling loop: proofs\<close>

lemma then_do_assoc: "then_do (then_do m f) g = then_do m (\<lambda>x. then_do (f x) g)"
  by (rule ext) (simp add: then_do_def split: prod.splits sum.splits)

lemma then_do_ret: "then_do (ret x) f = f x"
  by (rule ext) (simp add: then_do_def ret_def)

lemma offer_loop_append:
  "offer_loop (xs @ d # ys) known w
     = then_do (offer_loop xs known)
         (\<lambda>k. then_do (process_disk d) (\<lambda>_. offer_loop ys (insert d k))) w"
proof (induction xs arbitrary: known w)
  case Nil
  show ?case by (simp add: then_do_ret)
next
  case (Cons x xs)
  have "offer_loop ((x # xs) @ d # ys) known
      = then_do (process_disk x) (\<lambda>_. offer_loop (xs @ d # ys) (insert x known))" by simp
  also have "\<dots> = then_do (process_disk x) (\<lambda>_. then_do (offer_loop xs (insert x known))
         (\<lambda>k. then_do (process_disk d) (\<lambda>_. offer_loop ys (insert d k))))"
    using Cons.IH by presburger
  also have "\<dots> = then_do (offer_loop (x # xs) known)
         (\<lambda>k. then_do (process_disk d) (\<lambda>_. offer_loop ys (insert d k)))"
    by (simp add: then_do_assoc)
  finally show ?case by simp
qed

lemma offer_loop_result:
  "fst (offer_loop ds known w) = Inr k \<Longrightarrow> k = known \<union> set ds"
proof (induction ds arbitrary: known w)
  case Nil
  then show ?case by (simp add: ret_def)
next
  case (Cons d ds)
  show ?case
  proof (cases "process_disk d w")
    case (Pair r w')
    show ?thesis
    proof (cases r)
      case (Inl e)
      with Pair Cons.prems show ?thesis by (simp add: then_do_def)
    next
      case (Inr u)
      with Pair Cons.prems have "fst (offer_loop ds (insert d known) w') = Inr k"
        by (simp add: then_do_def)
      from Cons.IH [OF this] show ?thesis by auto
    qed
  qed
qed

lemma monitor_tick_result:
  assumes "set (iter (cur - known)) = cur - known"
    and "fst (monitor_tick iter known cur w) = Inr (r, known')"
  shows "r = (cur - known, known - cur) \<and> known' = cur"
proof (cases "cur - known = {}")
  case True
  with assms(2) show ?thesis
    by (auto simp: monitor_tick_def Let_def then_do_def ret_def emit_def split: if_splits)
next
  case False
  let ?w1 = "w\<lparr>trace := trace w @ [Log INFO ''Found new disks: {}'' [L (map str_name (iter (cur - known)))]]\<rparr>"
  obtain q w2 where o: "offer_loop (iter (cur - known)) known ?w1 = (q, w2)" by (cases "offer_loop (iter (cur - known)) known ?w1")
  show ?thesis
  proof (cases q)
    case (Inl e)
    with False o assms(2) show ?thesis
      by (simp add: monitor_tick_def Let_def then_do_def ret_def emit_def)
  next
    case (Inr k)
    with o have "fst (offer_loop (iter (cur - known)) known ?w1) = Inr k" by simp
    from offer_loop_result [OF this] assms(1) have k: "k = known \<union> (cur - known)" by simp
    from False o Inr assms(2) k show ?thesis
      by (auto simp: monitor_tick_def Let_def then_do_def ret_def emit_def split: if_splits)
  qed
qed

lemma main_KeyError:
  "''/dev/sdc'' \<notin> get_disks dev0 \<Longrightarrow> fst (main iter dev0 polls w) = Inl KeyError"
  by (simp add: main_def then_do_def emit_def)

lemma main_first_tick:
  assumes "''/dev/sdc'' \<in> get_disks dev0" and "get_disks p = get_disks dev0"
    and "iter {''/dev/sdc''} = [''/dev/sdc'']"
  shows "main iter dev0 (p # ps) w =
     (case process_disk ''/dev/sdc''
             (w\<lparr>trace := trace w @
                [Log INFO ''Started.'' [],
                 Log INFO ''Starting with disks: {}''
                   [L (map str_name (iter (get_disks dev0 - {''/dev/sdc''})))],
                 Log INFO ''Found new disks: {}'' [L [''sdc'']]]\<rparr>) of
        (Inl e, w') \<Rightarrow> (Inl e, w')
      | (Inr u, w') \<Rightarrow>
          then_do (monitor iter (get_disks dev0) (map get_disks ps))
            (\<lambda>rs. ret (({''/dev/sdc''}, {}) # rs))
            (w'\<lparr>trace := trace w' @ [Print ''Waiting for new disks...'' []]\<rparr>))"
proof -
  have n: "get_disks dev0 - (get_disks dev0 - {''/dev/sdc''}) = {''/dev/sdc''}"
    using assms(1) by auto
  have i: "insert ''/dev/sdc'' (get_disks dev0) = get_disks dev0"
    using assms(1) by auto
  have nm: "str_name ''/dev/sdc'' = ''sdc''" by code_simp
  let ?w1 = "w\<lparr>trace := trace w @
                [Log INFO ''Started.'' [],
                 Log INFO ''Starting with disks: {}''
                   [L (map str_name (iter (get_disks dev0 - {''/dev/sdc''})))],
                 Log INFO ''Found new disks: {}'' [L [''sdc'']]]\<rparr>"
  obtain q w' where pd: "process_disk ''/dev/sdc'' ?w1 = (q, w')"
    by (cases "process_disk ''/dev/sdc'' ?w1")
  show ?thesis
  proof (cases q)
    case (Inl e)
    with pd assms(1) show ?thesis
      by (simp add: main_def Let_def assms(2) n i assms(3) nm monitor_tick_def then_do_def
          emit_def ret_def)
  next
    case (Inr u)
    with pd assms(1) show ?thesis
      by (simp add: main_def Let_def assms(2) n i assms(3) nm monitor_tick_def then_do_def
          emit_def ret_def split: prod.splits sum.splits)
  qed
qed

text \<open>
  Claim C2, as stated, fails: \<open>/dev/sdc\<close> is in the arrived set of the first tick and is
  handed to \<open>process_disk\<close>, is reported as departed when it disappears, and as arrived
  again when it comes back.
\<close>

theorem sdc_arrives_and_departs_counterexample:
  "fst (main alphabetical
          [(''sda'', True), (''sdc'', True), (''sda1'', True), (''tty0'', False)]
          [[(''sda'', True), (''sdc'', True)],
           [(''sda'', True)],
           [(''sda'', True), (''sdb'', True), (''sdc'', True)]] blank_world)
     = Inr [({''/dev/sdc''}, {}), ({}, {''/dev/sdc''}), ({''/dev/sdb'', ''/dev/sdc''}, {})]
   \<and> filter (\<lambda>ev. case ev of RunUdevadm d \<Rightarrow> True | _ \<Rightarrow> False)
        (trace (snd (main alphabetical
          [(''sda'', True), (''sdc'', True), (''sda1'', True), (''tty0'', False)]
          [[(''sda'', True), (''sdc'', True)],
           [(''sda'', True)],
           [(''sda'', True), (''sdb'', True), (''sdc'', True)]] blank_world)))
     = [RunUdevadm ''/dev/sdc'', RunUdevadm ''/dev/sdb'', RunUdevadm ''/dev/sdc'']"
  by code_simp

text \<open>
  Claim C2, amended. \<open>/dev/sdc\<close> is not excluded from monitoring but removed from the
  initial known set: startup fails with KeyError when it is not in the first enumeration.
  When it is, and the first poll finds the disks of the first enumeration, \<open>/dev/sdc\<close> is
  the one arrived disk of the first tick and is handed to \<open>process_disk\<close>; an exception
  of that call ends \<open>main\<close>, and when the call returns the tick reports \<open>/dev/sdc\<close> as
  arrived and the loop goes on with all the disks known. In every tick the arrived disks
  are handed to \<open>process_disk\<close> one after the other, each once the calls before it have
  returned; a tick that is not ended by an exception reports the current set minus the
  known set as arrived and the known set minus the current set as departed, and leaves
  the current set as the known set.
\<close>

theorem sdc_is_handed_to_process_disk:
  "(''/dev/sdc'' \<notin> get_disks startup \<longrightarrow> fst (main iter startup polls w) = Inl KeyError) \<and>
   (''/dev/sdc'' \<in> get_disks startup \<and> get_disks p = get_disks startup \<and>
    iter {''/dev/sdc''} = [''/dev/sdc''] \<longrightarrow>
      main iter startup (p # ps) w =
        (case process_disk ''/dev/sdc''
                (w\<lparr>trace := trace w @
                   [Log INFO ''Started.'' [],
                    Log INFO ''Starting with disks: {}''
                      [L (map str_name (iter (get_disks startup - {''/dev/sdc''})))],
                    Log INFO ''Found new disks: {}'' [L [''sdc'']]]\<rparr>) of
           (Inl e, w') \<Rightarrow> (Inl e, w')
         | (Inr u, w') \<Rightarrow>
             then_do (monitor iter (get_disks startup) (map get_disks ps))
               (\<lambda>rs. ret (({''/dev/sdc''}, {}) # rs))
               (w'\<lparr>trace := trace w' @ [Print ''Waiting for new disks...'' []]\<rparr>))) \<and>
   offer_loop (xs @ d # ys) known w
     = then_do (offer_loop xs known)
         (\<lambda>k. then_do (process_disk d) (\<lambda>_. offer_loop ys (insert d k))) w \<and>
   (set (iter (cur - known)) = cur - known \<and>
    fst (monitor_tick iter known cur w) = Inr (r, known') \<longrightarrow>
      r = (cur - known, known - cur) \<and> known' = cur)"
  using main_KeyError [of startup iter polls w] main_first_tick [of startup p iter ps w]
    offer_loop_append [of xs d ys known w] monitor_tick_result [of iter cur known w r known']
  by blast

theorem sdc_is_handed_to_process_disk_witness:
  "fst (main alphabetical [(''sda'', True)] [[(''sda'', True), (''sdc'', True)]] blank_world)
     = Inl KeyError
   \<and> fst (main alphabetical [(''sda'', True), (''sdc'', True)]
            [[(''sda'', True), (''sdc'', True)], [(''sda'', True)]] timeout_world)
     = Inl TimeoutExpired
   \<and> fst (main alphabetical [(''sda'', True), (''sdc'', True)]
            [[(''sda'', True), (''sdc'', True)], [(''sda'', True)]] blank_world)
     = Inr [({''/dev/sdc''}, {}), ({}, {''/dev/sdc''})]
   \<and> fst (offer_loop ([''/dev/sdb''] @ ''/dev/sdc'' # []) {''/dev/sda''} blank_world)
     = Inr {''/dev/sda'', ''/dev/sdb'', ''/dev/sdc''}
   \<and> fst (monitor_tick alphabetical {''/dev/sda'', ''/dev/sdc''} {''/dev/sda'', ''/dev/sdb''}
            blank_world)
     = Inr (({''/dev/sda'', ''/dev/sdb''} - {''/dev/sda'', ''/dev/sdc''},
             {''/dev/sda'', ''/dev/sdc''} - {''/dev/sda'', ''/dev/sdb''}),
            {''/dev/sda'', ''/dev/sdb''})"
proof -
  let ?d0 = "[(''sda'', True), (''sdc'', True)]"
  let ?ps = "[[(''sda'', True)]]"
  let ?kn = "{''/dev/sda'', ''/dev/sdc''}"
  let ?cu = "{''/dev/sda'', ''/dev/sdb''}"
  have k: "''/dev/sdc'' \<notin> get_disks [(''sda'', True)]" by code_simp
  have r1: "fst (main alphabetical [(''sda'', True)] [[(''sda'', True), (''sdc'', True)]] blank_world)
     = Inl KeyError"
    by (rule sdc_is_handed_to_process_disk
          [where iter = alphabetical and startup = "[(''sda'', True)]", THEN conjunct1, THEN mp, OF k])
  have m: "''/dev/sdc'' \<in> get_disks ?d0" by code_simp
  have i: "alphabetical {''/dev/sdc''} = [''/dev/sdc'']" by code_simp
  have h: "''/dev/sdc'' \<in> get_disks ?d0 \<and> get_disks ?d0 = get_disks ?d0 \<and>
      alphabetical {''/dev/sdc''} = [''/dev/sdc'']"
    using m i by (intro conjI refl)
  note first = sdc_is_handed_to_process_disk
      [where iter = alphabetical and startup = "?d0" and p = "?d0",
       THEN conjunct2, THEN conjunct1, THEN mp, OF h]
  have c2: "fst (case process_disk ''/dev/sdc''
                (timeout_world\<lparr>trace := trace timeout_world @
                   [Log INFO ''Started.'' [],
                    Log INFO ''Starting with disks: {}''
                      [L (map str_name (alphabetical (get_disks ?d0 - {''/dev/sdc''})))],
                    Log INFO ''Found new disks: {}'' [L [''sdc'']]]\<rparr>) of
           (Inl e, w') \<Rightarrow> (Inl e, w')
         | (Inr u, w') \<Rightarrow>
             then_do (monitor alphabetical (get_disks ?d0) (map get_disks ?ps))
               (\<lambda>rs. ret (({''/dev/sdc''}, {}) # rs))
               (w'\<lparr>trace := trace w' @ [Print ''Waiting for new disks...'' []]\<rparr>))
     = Inl TimeoutExpired"
    by code_simp
  have r2: "fst (main alphabetical ?d0 (?d0 # ?ps) timeout_world) = Inl TimeoutExpired"
    by (rule trans [OF arg_cong [where f = fst, OF first] c2])
  have c3: "fst (case process_disk ''/dev/sdc''
                (blank_world\<lparr>trace := trace blank_world @
                   [Log INFO ''Started.'' [],
                    Log INFO ''Starting with disks: {}''
                      [L (map str_name (alphabetical (get_disks ?d0 - {''/dev/sdc''})))],
                    Log INFO ''Found new disks: {}'' [L [''sdc'']]]\<rparr>) of
           (Inl e, w') \<Rightarrow> (Inl e, w')
         | (Inr u, w') \<Rightarrow>
             then_do (monitor alphabetical (get_disks ?d0) (map get_disks ?ps))
               (\<lambda>rs. ret (({''/dev/sdc''}, {}) # rs))
               (w'\<lparr>trace := trace w' @ [Print ''Waiting for new disks...'' []]\<rparr>))
     = Inr [({''/dev/sdc''}, {}), ({}, {''/dev/sdc''})]"
    by code_simp
  have r3: "fst (main alphabetical ?d0 (?d0 # ?ps) blank_world)
     = Inr [({''/dev/sdc''}, {}), ({}, {''/dev/sdc''})]"
    by (rule trans [OF arg_cong [where f = fst, OF first] c3])
  have c4: "fst (then_do (offer_loop [''/dev/sdb''] {''/dev/sda''})
         (\<lambda>k. then_do (process_disk ''/dev/sdc'') (\<lambda>_. offer_loop [] (insert ''/dev/sdc'' k)))
         blank_world) = Inr {''/dev/sda'', ''/dev/sdb'', ''/dev/sdc''}"
    by code_simp
  note app = sdc_is_handed_to_process_disk [THEN conjunct2, THEN conjunct2, THEN conjunct1]
  have r4: "fst (offer_loop ([''/dev/sdb''] @ ''/dev/sdc'' # []) {''/dev/sda''} blank_world)
     = Inr {''/dev/sda'', ''/dev/sdb'', ''/dev/sdc''}"
    by (rule trans [OF arg_cong [where f = fst, OF app] c4])
  have s: "set (alphabetical (?cu - ?kn)) = ?cu - ?kn" by code_simp
  have t: "fst (monitor_tick alphabetical ?kn ?cu blank_world)
      = Inr (({''/dev/sdb''}, {''/dev/sdc''}), ?cu)" by code_simp
  note tick = sdc_is_handed_to_process_disk
      [where iter = alphabetical and cur = "?cu" and known = "?kn" and w = blank_world,
       THEN conjunct2, THEN conjunct2, THEN conjunct2, THEN mp, OF conjI [OF s t], THEN conjunct1]
  have r5: "fst (monitor_tick alphabetical ?kn ?cu blank_world)
      = Inr ((?cu - ?kn, ?kn - ?cu), ?cu)"
    by (rule t [unfolded tick])
  show ?thesis by (intro conjI r1 r2 r3 r4 r5)
qed

end
